theory Spec2Isabelle
  imports Main "HOL-Library.AList"
begin

section \<open>JavaScript values\<close>

text \<open>
  The gateway of \<^verbatim>\<open>src/service.js\<close> handles dynamically typed data: GraphQL
  arguments, parent objects, call metadata, static parameters and thrown values. They are
  modelled by one datatype of JSON-like values. An object is an association list in the
  order in which the engine enumerates its own keys (\<^verbatim>\<open>Object.keys\<close>); keys
  are distinct in a well-formed object. Numbers are the integers; strings are lists of
  code units below 256. \<open>JHost\<close> stands for a function or a class instance that the
  code under study never looks into (it is truthy, an object for lodash's
  \<^verbatim>\<open>isObject\<close> and not a plain object).
\<close>

datatype jsval =
    JUndefined
  | JNull
  | JBool bool
  | JNum int
  | JStr string
  | JArr "jsval list"
  | JObj "(string \<times> jsval) list"
  | JHost string

text \<open>JavaScript's \<^verbatim>\<open>ToBoolean\<close>, as used by \<^verbatim>\<open>if (x)\<close> and \<^verbatim>\<open>x && y\<close>.\<close>

fun truthy :: "jsval \<Rightarrow> bool" where
  "truthy JUndefined = False"
| "truthy JNull = False"
| "truthy (JBool b) = b"
| "truthy (JNum n) = (n \<noteq> 0)"
| "truthy (JStr s) = (s \<noteq> [])"
| "truthy (JArr xs) = True"
| "truthy (JObj kvs) = True"
| "truthy (JHost h) = True"

text \<open>\<^verbatim>\<open>x == null\<close>: true of \<^verbatim>\<open>null\<close> and \<^verbatim>\<open>undefined\<close> only.\<close>

definition nullish :: "jsval \<Rightarrow> bool" where
  "nullish v \<longleftrightarrow> v = JUndefined \<or> v = JNull"

text \<open>Reading an own property of an object: \<^verbatim>\<open>undefined\<close> when the key is missing.\<close>

fun own_prop :: "(string \<times> jsval) list \<Rightarrow> string \<Rightarrow> jsval" where
  "own_prop [] k = JUndefined"
| "own_prop ((k', v) # kvs) k = (if k' = k then v else own_prop kvs k)"

text \<open>
  Assigning a property: an existing key keeps its place in the enumeration order, a new
  key goes last.
\<close>

fun assign :: "(string \<times> jsval) list \<Rightarrow> string \<Rightarrow> jsval \<Rightarrow> (string \<times> jsval) list" where
  "assign [] k v = [(k, v)]"
| "assign ((k', v') # kvs) k v = (if k' = k then (k, v) # kvs else (k', v') # assign kvs k v)"

text \<open>\<^verbatim>\<open>delete obj[k]\<close>.\<close>

definition delete_prop :: "(string \<times> jsval) list \<Rightarrow> string \<Rightarrow> (string \<times> jsval) list" where
  "delete_prop kvs k = filter (\<lambda>kv. fst kv \<noteq> k) kvs"

section \<open>Field names of declarations\<close>

text \<open>
  \<^verbatim>\<open>getFieldName(declaration)\<close> (lines 57 to 64) cleans the declaration with two regular
  expression replacements and \<^verbatim>\<open>trim()\<close>, then returns element 0 of
  \<^verbatim>\<open>split(/[(:]/g)\<close>. Each regular expression is modelled by the scanner that a
  left-to-right global replacement with it performs.
\<close>

abbreviation dquote :: char where "dquote \<equiv> CHR 0x22"
abbreviation newline :: char where "newline \<equiv> CHR 0x0A"
abbreviation tab :: char where "tab \<equiv> CHR 0x09"

text \<open>
  The class \<^verbatim>\<open>\s\<close> below code unit 256: tab, line feed, vertical tab, form feed,
  carriage return, space and no-break space. \<^verbatim>\<open>trim()\<close> strips the same characters.
\<close>

definition js_space :: "char \<Rightarrow> bool" where
  "js_space c \<longleftrightarrow>
     c = CHR 0x09 \<or> c = CHR 0x0A \<or> c = CHR 0x0B \<or> c = CHR 0x0C \<or> c = CHR 0x0D \<or>
     c = CHR 0x20 \<or> c = CHR 0xA0"

text \<open>
  Line terminators below code unit 256: \<^verbatim>\<open>.\<close> matches neither, and in multi-line mode
  \<^verbatim>\<open>^\<close> matches right after either.
\<close>

definition line_terminator :: "char \<Rightarrow> bool" where
  "line_terminator c \<longleftrightarrow> c = CHR 0x0A \<or> c = CHR 0x0D"

text \<open>
  \<^verbatim>\<open>.replace(/"([\s\S]*?)"/g, "")\<close>: at a double quote that has a later double quote,
  the lazy body ends at the nearest one and the whole match is dropped; scanning goes on
  after it. A double quote with no later one matches nothing and stays.
\<close>

function replace_quoted :: "string \<Rightarrow> string" where
  "replace_quoted [] = []"
| "replace_quoted (c # cs) =
     (if c = dquote \<and> dquote \<in> set cs
      then replace_quoted (tl (dropWhile (\<lambda>x. x \<noteq> dquote) cs))
      else c # replace_quoted cs)"
  by pat_completeness auto
termination
proof (relation "measure length")
  fix c :: char and cs :: string
  have "length (tl (dropWhile (\<lambda>x. x \<noteq> dquote) cs)) \<le> length cs"
    using length_dropWhile_le [of "\<lambda>x. x \<noteq> dquote" cs] by simp
  then show "(tl (dropWhile (\<lambda>x. x \<noteq> dquote) cs), c # cs) \<in> measure length"
    by simp
qed simp_all

text \<open>
  One match of \<^verbatim>\<open>[\s]*?#.*\n?\<close> at the head of the text: white space up to a
  \<^verbatim>\<open>#\<close> (white space excludes \<^verbatim>\<open>#\<close>, so lazy and greedy agree), then every
  character up to the next line terminator, then one line feed when it is there. The
  result is the text after the match and whether the match ended with a line feed.
\<close>

definition match_comment :: "string \<Rightarrow> (bool \<times> string) option" where
  "match_comment s =
     (case dropWhile js_space s of
        [] \<Rightarrow> None
      | c # t \<Rightarrow>
          if c = CHR ''#'' then
            (case dropWhile (\<lambda>x. \<not> line_terminator x) t of
               [] \<Rightarrow> Some (False, [])
             | d # u \<Rightarrow> if d = newline then Some (True, u) else Some (False, d # u))
          else None)"

lemma match_comment_shorter:
  assumes "match_comment s = Some (nl, rest)"
  shows "length rest < length s"
proof -
  obtain c t where ct: "dropWhile js_space s = c # t" and hash: "c = CHR ''#''"
    using assms by (auto simp: match_comment_def split: list.splits if_splits)
  have "length rest \<le> length t"
  proof (cases "dropWhile (\<lambda>x. \<not> line_terminator x) t")
    case Nil
    with assms ct hash show ?thesis by (simp add: match_comment_def)
  next
    case (Cons d u)
    have "length (d # u) \<le> length t"
      using length_dropWhile_le [of "\<lambda>x. \<not> line_terminator x" t] Cons by simp
    moreover have "rest = u \<or> rest = d # u"
      using assms ct hash Cons by (auto simp: match_comment_def split: if_splits)
    ultimately show ?thesis by auto
  qed
  moreover have "length (c # t) \<le> length s"
    using length_dropWhile_le [of js_space s] ct by simp
  ultimately show ?thesis by simp
qed

text \<open>
  \<^verbatim>\<open>.replace(/^[\s]*?#.*\n?/gm, "")\<close>. The flag says whether the current position
  is the start of a line (the start of the text, or right after a line terminator), the
  only positions where \<^verbatim>\<open>^\<close> matches.
\<close>

function replace_comments :: "bool \<Rightarrow> string \<Rightarrow> string" where
  "replace_comments bol [] = []"
| "replace_comments bol (c # cs) =
     (if bol then
        (case match_comment (c # cs) of
           Some (nl, rest) \<Rightarrow> replace_comments nl rest
         | None \<Rightarrow> c # replace_comments (line_terminator c) cs)
      else c # replace_comments (line_terminator c) cs)"
  by pat_completeness auto

termination
  by (relation "measure (\<lambda>(bol, s). length s)") (auto dest: match_comment_shorter)

text \<open>\<^verbatim>\<open>trim()\<close>.\<close>

definition trim :: "string \<Rightarrow> string" where
  "trim s = rev (dropWhile js_space (rev (dropWhile js_space s)))"

text \<open>
  \<^verbatim>\<open>split(/[(:]/g)\<close>: the pieces between separators. The empty string gives one empty
  piece; adjacent separators give empty pieces.
\<close>

definition field_separator :: "char \<Rightarrow> bool" where
  "field_separator c \<longleftrightarrow> c = CHR ''('' \<or> c = CHR '':''"

fun split_fields :: "string \<Rightarrow> string list" where
  "split_fields [] = [[]]"
| "split_fields (c # cs) =
     (if field_separator c then [] # split_fields cs
      else (case split_fields cs of
              [] \<Rightarrow> [[c]]
            | p # ps \<Rightarrow> (c # p) # ps))"

definition getFieldName :: "string \<Rightarrow> string" where
  "getFieldName declaration =
     (let cleanedDeclaration = trim (replace_comments True (replace_quoted declaration))
      in case split_fields cleanedDeclaration of
           [] \<Rightarrow> []
         | p # ps \<Rightarrow> p)"

section \<open>The lodash operations the resolvers use\<close>

text \<open>
  lodash is a dependency, not code of the repository. Its operations are modelled on the
  values above as lodash 4.17 documents them, within these limits, which every theorem
  that depends on them respects: only own properties are read (members inherited from
  \<^verbatim>\<open>Object.prototype\<close> are not modelled); a path string is a property name of its
  own when it has no dot or when the object has that very key, and a list of names
  separated by dots otherwise (the bracket syntax of paths is not modelled); a write to
  a named property of an array or to a host object is dropped, and so is the copying of
  defaults between an object and an array.
\<close>

definition isObject :: "jsval \<Rightarrow> bool" where
  "isObject v = (case v of JObj kvs \<Rightarrow> True | JArr xs \<Rightarrow> True | JHost h \<Rightarrow> True | _ \<Rightarrow> False)"

definition digit :: "char \<Rightarrow> bool" where
  "digit c \<longleftrightarrow> c \<in> set ''0123456789''"

definition nat_of_digits :: "string \<Rightarrow> nat" where
  "nat_of_digits ds = foldl (\<lambda>n c. 10 * n + (of_char c - 48)) 0 ds"

text \<open>lodash's \<^verbatim>\<open>isIndex\<close> on a string: \<^verbatim>\<open>/^(?:0|[1-9]\d*)$/\<close>.\<close>

definition array_index :: "string \<Rightarrow> nat option" where
  "array_index k =
     (if k \<noteq> [] \<and> list_all digit k \<and> (k = ''0'' \<or> hd k \<noteq> CHR ''0'')
      then Some (nat_of_digits k) else None)"

text \<open>\<^verbatim>\<open>object[key]\<close>.\<close>

definition member :: "jsval \<Rightarrow> string \<Rightarrow> jsval" where
  "member object key =
     (case object of
        JObj kvs \<Rightarrow> own_prop kvs key
      | JArr xs \<Rightarrow>
          (case array_index key of
             Some i \<Rightarrow> if i < length xs then xs ! i else JUndefined
           | None \<Rightarrow> if key = ''length'' then JNum (int (length xs)) else JUndefined)
      | JStr s \<Rightarrow>
          (case array_index key of
             Some i \<Rightarrow> if i < length s then JStr [s ! i] else JUndefined
           | None \<Rightarrow> if key = ''length'' then JNum (int (length s)) else JUndefined)
      | _ \<Rightarrow> JUndefined)"

text \<open>\<^verbatim>\<open>object[key] = value\<close>; an index past the end of an array leaves holes.\<close>

definition put_member :: "jsval \<Rightarrow> string \<Rightarrow> jsval \<Rightarrow> jsval" where
  "put_member object key v =
     (case object of
        JObj kvs \<Rightarrow> JObj (assign kvs key v)
      | JArr xs \<Rightarrow>
          (case array_index key of
             Some i \<Rightarrow>
               if i < length xs then JArr (xs[i := v])
               else JArr (xs @ replicate (i - length xs) JUndefined @ [v])
           | None \<Rightarrow> object)
      | _ \<Rightarrow> object)"

text \<open>\<^verbatim>\<open>delete object[key]\<close>; deleting an array element leaves a hole.\<close>

definition delete_member :: "jsval \<Rightarrow> string \<Rightarrow> jsval" where
  "delete_member object key =
     (case object of
        JObj kvs \<Rightarrow> JObj (delete_prop kvs key)
      | JArr xs \<Rightarrow>
          (case array_index key of
             Some i \<Rightarrow> if i < length xs then JArr (xs[i := JUndefined]) else object
           | None \<Rightarrow> object)
      | _ \<Rightarrow> object)"

text \<open>\<^verbatim>\<open>key in Object(object)\<close>, own keys only.\<close>

definition has_key :: "jsval \<Rightarrow> string \<Rightarrow> bool" where
  "has_key object key =
     (case object of
        JObj kvs \<Rightarrow> key \<in> set (map fst kvs)
      | JArr xs \<Rightarrow> (case array_index key of Some i \<Rightarrow> i < length xs | None \<Rightarrow> key = ''length'')
      | _ \<Rightarrow> False)"

fun split_dots :: "string \<Rightarrow> string list" where
  "split_dots [] = [[]]"
| "split_dots (c # cs) =
     (if c = CHR ''.'' then [] # split_dots cs
      else (case split_dots cs of
              [] \<Rightarrow> [[c]]
            | p # ps \<Rightarrow> (c # p) # ps))"

text \<open>lodash's \<^verbatim>\<open>castPath(path, object)\<close> on a path string.\<close>

definition castPath :: "string \<Rightarrow> jsval \<Rightarrow> string list" where
  "castPath path object =
     (if CHR ''.'' \<notin> set path \<or> has_key object path then [path] else split_dots path)"

text \<open>lodash's \<^verbatim>\<open>baseGet\<close>: stops with \<^verbatim>\<open>undefined\<close> at a null or undefined step.\<close>

fun get_keys :: "jsval \<Rightarrow> string list \<Rightarrow> jsval" where
  "get_keys object [] = object"
| "get_keys object (k # ks) = (if nullish object then JUndefined else get_keys (member object k) ks)"

definition ld_get :: "jsval \<Rightarrow> string \<Rightarrow> jsval" where
  "ld_get object path = (if nullish object then JUndefined else get_keys object (castPath path object))"

text \<open>
  lodash's \<^verbatim>\<open>baseSet\<close>: a step that is not an object is replaced by a fresh array when
  the next name is an index, and by a fresh object otherwise.
\<close>

fun set_keys :: "jsval \<Rightarrow> string list \<Rightarrow> jsval \<Rightarrow> jsval" where
  "set_keys object [] v = object"
| "set_keys object [k] v = put_member object k v"
| "set_keys object (k # k' # ks) v =
     (let objValue = member object k;
          nested = (if isObject objValue then objValue
                    else if array_index k' \<noteq> None then JArr [] else JObj [])
      in put_member object k (set_keys nested (k' # ks) v))"

definition ld_set :: "jsval \<Rightarrow> string \<Rightarrow> jsval \<Rightarrow> jsval" where
  "ld_set object path v = (if isObject object then set_keys object (castPath path object) v else object)"

text \<open>lodash's \<^verbatim>\<open>baseUnset\<close>: deletes the last name in the parent the path leads to.\<close>

fun unset_keys :: "jsval \<Rightarrow> string list \<Rightarrow> jsval" where
  "unset_keys object [] = object"
| "unset_keys object [k] = delete_member object k"
| "unset_keys object (k # k' # ks) =
     (let objValue = member object k
      in if nullish objValue then object
         else put_member object k (unset_keys objValue (k' # ks)))"

definition ld_unset :: "jsval \<Rightarrow> string \<Rightarrow> jsval" where
  "ld_unset object path = (if nullish object then object else unset_keys object (castPath path object))"

text \<open>
  \<^verbatim>\<open>_.defaultsDeep(object, source)\<close> for one source: a destination property keeps its
  value unless it is \<^verbatim>\<open>undefined\<close>; where both sides are objects (or both arrays) the
  defaults are applied inside. Several sources are applied from left to right.
\<close>

fun defaults_value :: "jsval \<Rightarrow> jsval \<Rightarrow> jsval"
  and defaults_props :: "(string \<times> jsval) list \<Rightarrow> (string \<times> jsval) list \<Rightarrow> (string \<times> jsval) list"
  and defaults_items :: "jsval list \<Rightarrow> jsval list \<Rightarrow> jsval list" where
  "defaults_value objValue (JObj src) =
     (case objValue of
        JUndefined \<Rightarrow> JObj src
      | JObj dst \<Rightarrow> JObj (defaults_props dst src)
      | _ \<Rightarrow> objValue)"
| "defaults_value objValue (JArr src) =
     (case objValue of
        JUndefined \<Rightarrow> JArr src
      | JArr dst \<Rightarrow> JArr (defaults_items dst src)
      | _ \<Rightarrow> objValue)"
| "defaults_value objValue JUndefined = objValue"
| "defaults_value objValue JNull = (if objValue = JUndefined then JNull else objValue)"
| "defaults_value objValue (JBool b) = (if objValue = JUndefined then JBool b else objValue)"
| "defaults_value objValue (JNum n) = (if objValue = JUndefined then JNum n else objValue)"
| "defaults_value objValue (JStr s) = (if objValue = JUndefined then JStr s else objValue)"
| "defaults_value objValue (JHost h) = (if objValue = JUndefined then JHost h else objValue)"
| "defaults_props dst [] = dst"
| "defaults_props dst ((k, srcValue) # src) =
     defaults_props (assign dst k (defaults_value (own_prop dst k) srcValue)) src"
| "defaults_items dst [] = dst"
| "defaults_items [] (srcValue # src) = srcValue # defaults_items [] src"
| "defaults_items (objValue # dst) (srcValue # src) =
     defaults_value objValue srcValue # defaults_items dst src"

definition defaultsDeep :: "(string \<times> jsval) list \<Rightarrow> (string \<times> jsval) list list \<Rightarrow> (string \<times> jsval) list" where
  "defaultsDeep object sources = foldl defaults_props object sources"

section \<open>Resolvers of actions\<close>

text \<open>
  A resolver definition is the plain object that \<^verbatim>\<open>createActionResolver(actionName, def)\<close>
  destructures (lines 131 to 138), with the defaults of the destructuring already
  applied: a missing flag is \<open>False\<close>, a missing mapping or \<^verbatim>\<open>params\<close> is empty. The
  three mappings send a source key to the path of a parameter; their entries are in
  \<^verbatim>\<open>Object.keys\<close> order. \<open>action\<close> is \<open>None\<close> when the object has no action
  (\<^verbatim>\<open>r.action == null\<close>).
\<close>

record resolver_def =
  action :: "string option"
  dataLoader :: bool
  nullIfError :: bool
  params :: "(string \<times> jsval) list"
  argParams :: "(string \<times> string) list"
  rootParams :: "(string \<times> string) list"
  metaParams :: "(string \<times> string) list"

text \<open>
  What one call of a DataLoader's \<^verbatim>\<open>load(key)\<close> does: it throws at once (DataLoader
  does for a null or undefined key), or returns a promise that is later rejected or
  fulfilled.
\<close>

datatype load_outcome = LoadThrows jsval | LoadRejects jsval | LoadResolves jsval

text \<open>
  The execution context of one operation, as line 511 builds it: \<open>meta\<close> is
  \<^verbatim>\<open>context.ctx.meta\<close>; \<open>call\<close> is \<^verbatim>\<open>context.ctx.call\<close>, a remote call that fails
  (\<open>Inl\<close>, the thrown value) or returns a result; \<open>loaders\<close> is \<^verbatim>\<open>context.loaders\<close>,
  absent in the context \<^verbatim>\<open>{ ctx }\<close> that the \<^verbatim>\<open>graphql\<close> action passes (line 693).
  When several pending loads are rejected, \<^verbatim>\<open>Promise.all\<close> fails with the reason of
  the one rejected first in time; \<open>first_rejected\<close> is that choice of the scheduler,
  given the reasons in the order of the elements.
\<close>

record execution_context =
  meta :: jsval
  call :: "string \<Rightarrow> jsval \<Rightarrow> jsval + jsval"
  loaders :: "(string \<Rightarrow> (jsval \<Rightarrow> load_outcome) option) option"
  first_rejected :: "jsval list \<Rightarrow> jsval"

text \<open>
  What an invocation of a resolver did: the value it resolved to or the value it threw
  (\<open>Inl\<close>), the remote calls made through \<^verbatim>\<open>ctx.call\<close>, the \<^verbatim>\<open>load\<close> calls made on
  loaders (action name and key), and the \<^verbatim>\<open>args\<close> object as the resolver left it
  (\<^verbatim>\<open>_.unset\<close> and \<^verbatim>\<open>_.defaultsDeep\<close> write into it).
\<close>

record outcome =
  result :: "jsval + jsval"
  calls :: "(string \<times> jsval) list"
  loads :: "(string \<times> jsval) list"
  args_after :: "(string \<times> jsval) list"

definition TypeError :: jsval where
  "TypeError = JObj [(''name'', JStr ''TypeError'')]"

text \<open>
  The \<^verbatim>\<open>catch\<close> block of lines 188 to 197: with \<^verbatim>\<open>nullIfError\<close> the resolver resolves
  to null; otherwise a truthy \<^verbatim>\<open>err.ctx\<close> is overwritten with null and the error is
  thrown again.
\<close>

definition scrub_ctx :: "jsval \<Rightarrow> jsval" where
  "scrub_ctx err =
     (if truthy err \<and> truthy (member err ''ctx'') then put_member err ''ctx'' JNull else err)"

definition catch_error :: "bool \<Rightarrow> jsval \<Rightarrow> jsval + jsval" where
  "catch_error null_if_error err = (if null_if_error then Inr JNull else Inl (scrub_ctx err))"

text \<open>
  \<^verbatim>\<open>value.map(item => context.loaders[actionName].load(item))\<close>: the loads are started
  in order; one that throws ends the loop with the loads started so far.
\<close>

fun load_each :: "(jsval \<Rightarrow> load_outcome) \<Rightarrow> jsval list \<Rightarrow> jsval + load_outcome list" where
  "load_each load [] = Inr []"
| "load_each load (item # items) =
     (case load item of
        LoadThrows err \<Rightarrow> Inl err
      | out \<Rightarrow> (case load_each load items of
                   Inl err \<Rightarrow> Inl err
                 | Inr outs \<Rightarrow> Inr (out # outs)))"

fun loads_started :: "(jsval \<Rightarrow> load_outcome) \<Rightarrow> jsval list \<Rightarrow> jsval list" where
  "loads_started load [] = []"
| "loads_started load (item # items) =
     (case load item of
        LoadThrows err \<Rightarrow> [item]
      | out \<Rightarrow> item # loads_started load items)"

definition rejections :: "load_outcome list \<Rightarrow> jsval list" where
  "rejections outs = concat (map (\<lambda>out. case out of LoadRejects err \<Rightarrow> [err] | _ \<Rightarrow> []) outs)"

definition resolved_values :: "load_outcome list \<Rightarrow> jsval list" where
  "resolved_values outs = concat (map (\<lambda>out. case out of LoadResolves v \<Rightarrow> [v] | _ \<Rightarrow> []) outs)"

text \<open>\<^verbatim>\<open>await Promise.all(promises)\<close>.\<close>

definition promise_all :: "(jsval list \<Rightarrow> jsval) \<Rightarrow> load_outcome list \<Rightarrow> jsval + jsval" where
  "promise_all first outs =
     (if rejections outs = [] then Inr (JArr (resolved_values outs))
      else Inl (first (rejections outs)))"

text \<open>
  The loader branch, lines 150 to 164. A value that is null or undefined resolves to
  null before any loader is looked at. Otherwise \<^verbatim>\<open>context.loaders[actionName]\<close> is
  read, which throws a \<^verbatim>\<open>TypeError\<close> when the context has no loaders, and so does
  \<^verbatim>\<open>.load\<close> on a missing entry; with an empty array neither is evaluated.
\<close>

definition batched_call ::
  "string \<Rightarrow> resolver_def \<Rightarrow> jsval \<Rightarrow> (string \<times> jsval) list \<Rightarrow> execution_context \<Rightarrow> outcome" where
  "batched_call actionName def root args context =
     (let value = (case map fst (rootParams def) of
                     [] \<Rightarrow> JUndefined
                   | firstRootKey # ks \<Rightarrow>
                       if firstRootKey \<noteq> [] then
                         (if truthy root then ld_get root firstRootKey else root)
                       else JUndefined);
          loader = (case loaders context of None \<Rightarrow> None | Some reg \<Rightarrow> reg actionName);
          failed = (\<lambda>err started.
                     \<lparr>result = catch_error (nullIfError def) err, calls = [],
                      loads = map (Pair actionName) started, args_after = args\<rparr>)
      in if nullish value then \<lparr>result = Inr JNull, calls = [], loads = [], args_after = args\<rparr>
         else
           (case value of
              JArr items \<Rightarrow>
                (if items = [] then \<lparr>result = Inr (JArr []), calls = [], loads = [], args_after = args\<rparr>
                 else
                   (case loader of
                      None \<Rightarrow> failed TypeError []
                    | Some load \<Rightarrow>
                        (case load_each load items of
                           Inl err \<Rightarrow> failed err (loads_started load items)
                         | Inr outs \<Rightarrow>
                             (case promise_all (first_rejected context) outs of
                                Inl err \<Rightarrow> failed err items
                              | Inr v \<Rightarrow>
                                  \<lparr>result = Inr v, calls = [],
                                   loads = map (Pair actionName) items, args_after = args\<rparr>))))
            | _ \<Rightarrow>
                (case loader of
                   None \<Rightarrow> failed TypeError []
                 | Some load \<Rightarrow>
                     (case load value of
                        LoadResolves v \<Rightarrow>
                          \<lparr>result = Inr v, calls = [], loads = [(actionName, value)], args_after = args\<rparr>
                      | LoadRejects err \<Rightarrow> failed err [value]
                      | LoadThrows err \<Rightarrow> failed err [value]))))"

text \<open>
  The parameter object \<^verbatim>\<open>p\<close> of lines 166 to 181: the meta mappings are written
  first, then the root mappings, then the argument mappings. Each argument mapping
  also removes its source key from \<^verbatim>\<open>args\<close>, so a later one reads the \<^verbatim>\<open>args\<close>
  that the earlier ones left.
\<close>

definition set_from :: "jsval \<Rightarrow> (string \<times> string) list \<Rightarrow> jsval \<Rightarrow> jsval" where
  "set_from source mapping p = foldl (\<lambda>p (k, target). ld_set p target (ld_get source k)) p mapping"

fun set_from_args :: "(string \<times> string) list \<Rightarrow> jsval \<times> jsval \<Rightarrow> jsval \<times> jsval" where
  "set_from_args [] (p, args) = (p, args)"
| "set_from_args ((k, target) # mapping) (p, args) =
     set_from_args mapping (ld_set p target (ld_get args k), ld_unset args k)"

definition entries :: "jsval \<Rightarrow> (string \<times> jsval) list" where
  "entries v = (case v of JObj kvs \<Rightarrow> kvs | _ \<Rightarrow> [])"

text \<open>
  Lines 166 to 186 up to the remote call: what \<^verbatim>\<open>_.defaultsDeep(args, p, params)\<close>
  returns, which is the \<^verbatim>\<open>args\<close> object itself, written into.
\<close>

definition mapped_params ::
  "resolver_def \<Rightarrow> jsval \<Rightarrow> (string \<times> jsval) list \<Rightarrow> execution_context \<Rightarrow> jsval \<times> jsval" where
  "mapped_params def root args context =
     (let p0 = JObj [];
          p1 = (if truthy (meta context) \<and> metaParams def \<noteq> []
                then set_from (meta context) (metaParams def) p0 else p0);
          p2 = (if truthy root \<and> rootParams def \<noteq> []
                then set_from root (rootParams def) p1 else p1)
      in if argParams def \<noteq> []
         then set_from_args (argParams def) (p2, JObj args) else (p2, JObj args))"

definition call_params ::
  "resolver_def \<Rightarrow> jsval \<Rightarrow> (string \<times> jsval) list \<Rightarrow> execution_context \<Rightarrow> (string \<times> jsval) list" where
  "call_params def root args context =
     (case mapped_params def root args context of
        (p, args') \<Rightarrow> defaultsDeep (entries args') [entries p, params def])"

definition direct_call ::
  "string \<Rightarrow> resolver_def \<Rightarrow> jsval \<Rightarrow> (string \<times> jsval) list \<Rightarrow> execution_context \<Rightarrow> outcome" where
  "direct_call actionName def root args context =
     (let payload = call_params def root args context
      in (case call context actionName (JObj payload) of
            Inr v \<Rightarrow>
              \<lparr>result = Inr v, calls = [(actionName, JObj payload)], loads = [], args_after = payload\<rparr>
          | Inl err \<Rightarrow>
              \<lparr>result = catch_error (nullIfError def) err, calls = [(actionName, JObj payload)],
               loads = [], args_after = payload\<rparr>))"

text \<open>
  \<^verbatim>\<open>createActionResolver(actionName, def)\<close> returns a function of
  \<^verbatim>\<open>(root, args, context)\<close>; the model is that function applied.
\<close>

definition createActionResolver ::
  "string \<Rightarrow> resolver_def \<Rightarrow> jsval \<Rightarrow> (string \<times> jsval) list \<Rightarrow> execution_context \<Rightarrow> outcome" where
  "createActionResolver actionName def root args context =
     (if dataLoader def then batched_call actionName def root args context
      else direct_call actionName def root args context)"

section \<open>The precedence of call parameters, stated layer by layer\<close>







section \<open>Service descriptors\<close>

text \<open>
  A fragment is what a \<^verbatim>\<open>graphql\<close> definition holds under \<^verbatim>\<open>query\<close>, \<^verbatim>\<open>type\<close> and the
  like: nothing, one declaration, or an array of declarations. \<^verbatim>\<open>if (def.query)\<close> is
  false of nothing and of the empty string, true of every array; \<^verbatim>\<open>list.concat(x)\<close>
  appends one declaration or the elements of an array, and \<^verbatim>\<open>_.castArray(x)\<close> lists
  the same declarations.
\<close>

datatype fragment = Absent | Single string | Several "string list"

fun fragment_truthy :: "fragment \<Rightarrow> bool" where
  "fragment_truthy Absent = False"
| "fragment_truthy (Single s) = (s \<noteq> [])"
| "fragment_truthy (Several ss) = True"

fun castArray :: "fragment \<Rightarrow> string list" where
  "castArray Absent = []"
| "castArray (Single s) = [s]"
| "castArray (Several ss) = ss"

definition concat_fragment :: "string list \<Rightarrow> fragment \<Rightarrow> string list" where
  "concat_fragment list x = (if fragment_truthy x then list @ castArray x else list)"

text \<open>
  A value in a service's resolver settings: a plain object, read through the fields of
  a resolver definition, or anything else (an enum value, a function).
\<close>

datatype resolver_decl = PlainObject resolver_def | NotPlainObject jsval

text \<open>
  The \<^verbatim>\<open>graphql\<close> definition of a service's settings or of an action. \<open>gql_resolvers\<close>
  (type name, then field name, in \<^verbatim>\<open>Object.entries\<close> order) is read at the service
  level only, \<open>gql_tags\<close> and \<open>gql_filter\<close> at the action level only; \<open>None\<close> is a
  missing \<^verbatim>\<open>resolvers\<close>.
\<close>

record graphql_def =
  gql_query :: fragment
  gql_mutation :: fragment
  gql_subscription :: fragment
  gql_type :: fragment
  gql_interface :: fragment
  gql_union :: fragment
  gql_enum :: fragment
  gql_input :: fragment
  gql_resolvers :: "(string \<times> (string \<times> resolver_decl) list) list option"
  gql_tags :: jsval
  gql_filter :: jsval

text \<open>
  An action of the registry's service list: its full name (\<^verbatim>\<open>action.name\<close>) and its
  \<^verbatim>\<open>graphql\<close> property, \<open>None\<close> when that is missing or not an object.
\<close>

record action_descriptor =
  action_name :: string
  action_graphql :: "graphql_def option"

datatype version = NoVersion | NumberVersion int | StringVersion string

text \<open>
  A service of the registry's service list. \<open>fullName\<close> is \<open>None\<close> when the property
  is missing; \<open>settings_graphql\<close> is \<^verbatim>\<open>service.settings.graphql\<close>, \<open>None\<close> when it is
  missing or not an object; \<open>actions\<close> are \<^verbatim>\<open>Object.values(service.actions)\<close>.
\<close>

record service =
  name :: string
  version :: version
  fullName :: "string option"
  settings_graphql :: "graphql_def option"
  actions :: "action_descriptor list"

text \<open>The decimal digits of an integer, as \<^verbatim>\<open>"v" + service.version\<close> prints them.\<close>

fun digits_of :: "nat \<Rightarrow> nat \<Rightarrow> string" where
  "digits_of 0 n = []"
| "digits_of (Suc fuel) n =
     (if n < 10 then [char_of (48 + n)] else digits_of fuel (n div 10) @ [char_of (48 + n mod 10)])"

definition string_of_int :: "int \<Rightarrow> string" where
  "string_of_int i =
     (if i < 0 then CHR ''-'' # digits_of (Suc (nat (- i))) (nat (- i))
      else digits_of (Suc (nat i)) (nat i))"

text \<open>\<^verbatim>\<open>getServiceName(service)\<close>, lines 72 to 85.\<close>

definition getServiceName :: "service \<Rightarrow> string" where
  "getServiceName service =
     (case fullName service of
        Some full \<Rightarrow>
          if full \<noteq> [] then full
          else (case version service of
                  NoVersion \<Rightarrow> name service
                | NumberVersion n \<Rightarrow> ''v'' @ string_of_int n @ ''.'' @ name service
                | StringVersion v \<Rightarrow> v @ ''.'' @ name service)
      | None \<Rightarrow>
          (case version service of
             NoVersion \<Rightarrow> name service
           | NumberVersion n \<Rightarrow> ''v'' @ string_of_int n @ ''.'' @ name service
           | StringVersion v \<Rightarrow> v @ ''.'' @ name service))"

text \<open>\<^verbatim>\<open>getResolverActionName(service, action)\<close>, lines 93 to 99.\<close>

definition getResolverActionName :: "string \<Rightarrow> string \<Rightarrow> string" where
  "getResolverActionName service action' =
     (if CHR ''.'' \<notin> set action' then service @ ''.'' @ action' else action')"

section \<open>Resolver maps\<close>

text \<open>
  A value of the resolver map that is handed to the schema builder: the function that
  \<^verbatim>\<open>createActionResolver(actionName, def)\<close> returned, or values passed through as they
  were declared. lodash's \<^verbatim>\<open>merge\<close> assigns a function or a primitive over what was
  there and merges a plain object or an array into it; \<open>Merged ds\<close> is the value that
  merging the declared values \<open>ds\<close> gives, in that order, starting from the first.
\<close>

datatype resolver = ActionResolver string resolver_def | Merged "resolver_decl list"

text \<open>The definition that \<^verbatim>\<open>createActionResolver(action.name)\<close> gets: \<^verbatim>\<open>def = {}\<close>.\<close>

definition empty_def :: resolver_def where
  "empty_def =
     \<lparr>action = None, dataLoader = False, nullIfError = False, params = [],
      argParams = [], rootParams = [], metaParams = []\<rparr>"

text \<open>\<^verbatim>\<open>createServiceResolvers(serviceName, resolvers)\<close>, lines 107 to 122.\<close>

definition createServiceResolvers ::
  "string \<Rightarrow> (string \<times> resolver_decl) list \<Rightarrow> (string \<times> resolver) list" where
  "createServiceResolvers serviceName resolvers =
     foldl (\<lambda>acc (field, r).
              (case r of
                 PlainObject def \<Rightarrow>
                   (case action def of
                      Some a \<Rightarrow>
                        AList.update field
                          (ActionResolver (getResolverActionName serviceName a) def) acc
                    | None \<Rightarrow> AList.update field (Merged [r]) acc)
               | NotPlainObject v \<Rightarrow> AList.update field (Merged [r]) acc))
       [] resolvers"

text \<open>
  One property of \<^verbatim>\<open>_.merge(object, source)\<close>: a function is assigned; a declared
  \<^verbatim>\<open>undefined\<close> leaves an existing value alone; any other declared value is assigned
  over a function and merged into a value that was passed through.
\<close>

definition merge_value :: "resolver option \<Rightarrow> resolver \<Rightarrow> resolver" where
  "merge_value objValue srcValue =
     (case srcValue of
        ActionResolver a def \<Rightarrow> srcValue
      | Merged ds \<Rightarrow>
          (case objValue of
             None \<Rightarrow> srcValue
           | Some (ActionResolver a def) \<Rightarrow>
               if ds = [NotPlainObject JUndefined] then ActionResolver a def else srcValue
           | Some (Merged ds0) \<Rightarrow>
               if ds = [NotPlainObject JUndefined] then Merged ds0 else Merged (ds0 @ ds)))"

definition merge_fields :: "(string \<times> resolver) list \<Rightarrow> (string \<times> resolver) list \<Rightarrow> (string \<times> resolver) list" where
  "merge_fields object source =
     foldl (\<lambda>acc (field, srcValue). AList.update field (merge_value (map_of acc field) srcValue) acc)
       object source"

text \<open>
  \<^verbatim>\<open>acc[name] = _.merge(acc[name] || {}, source)\<close> (line 308), which is also what
  \<^verbatim>\<open>_.merge(resolvers, resolver)\<close> (line 389) does for each type of \<^verbatim>\<open>resolver\<close>.
\<close>

definition merge_type ::
  "(string \<times> (string \<times> resolver) list) list \<Rightarrow> string \<Rightarrow> (string \<times> resolver) list \<Rightarrow>
   (string \<times> (string \<times> resolver) list) list" where
  "merge_type acc type_name field_map =
     AList.update type_name
       (merge_fields (case map_of acc type_name of None \<Rightarrow> [] | Some existing \<Rightarrow> existing) field_map) acc"

definition ReferenceError :: "string \<Rightarrow> jsval" where
  "ReferenceError identifier =
     JObj [(''name'', JStr ''ReferenceError''), (''message'', JStr (identifier @ '' is not defined''))]"

text \<open>
  \<^verbatim>\<open>createAsyncIteratorResolver(actionName, tags, filter)\<close>, lines 208 to 224. Its
  second statement, \<^verbatim>\<open>console.log(params)\<close> on line 210, reads the identifier
  \<^verbatim>\<open>params\<close>. The function's parameters are \<^verbatim>\<open>actionName\<close>, \<^verbatim>\<open>tags\<close> and
  \<^verbatim>\<open>filter\<close>; no enclosing scope of the module declares \<^verbatim>\<open>params\<close> (it is a
  parameter only of the arrow functions further down), and it is no global of the
  runtime. Reading an undeclared identifier throws a \<^verbatim>\<open>ReferenceError\<close>, so the
  \<^verbatim>\<open>return\<close> of line 211 is never reached.
\<close>

definition createAsyncIteratorResolver :: "string \<Rightarrow> jsval \<Rightarrow> jsval \<Rightarrow> jsval + resolver" where
  "createAsyncIteratorResolver actionName tags filter' = Inl (ReferenceError ''params'')"

section \<open>The composition pass\<close>

text \<open>
  The options of the mixin that the pass reads: \<^verbatim>\<open>typeDefs\<close>, \<^verbatim>\<open>resolvers\<close> (\<open>None\<close>
  when missing), \<^verbatim>\<open>schemaDirectives\<close> and \<^verbatim>\<open>onlyIncludeCurrentService\<close>.
\<close>

record mixin_options =
  opt_typeDefs :: fragment
  opt_resolvers :: "(string \<times> (string \<times> resolver) list) list option"
  opt_schemaDirectives :: jsval
  onlyIncludeCurrentService :: bool

text \<open>The local variables of \<^verbatim>\<open>generateGraphQLSchema\<close> that the loop over the services updates.\<close>

record composition =
  queries :: "string list"
  mutations :: "string list"
  subscriptions :: "string list"
  types :: "string list"
  interfaces :: "string list"
  unions :: "string list"
  enums :: "string list"
  inputs :: "string list"
  resolvers :: "(string \<times> (string \<times> resolver) list) list"
  processedServices :: "string set"

text \<open>What \<^verbatim>\<open>makeExecutableSchema\<close> is called with (line 461).\<close>

record schema_source =
  typeDefs :: "string list"
  schema_resolvers :: "(string \<times> (string \<times> resolver) list) list"
  schemaDirectives :: jsval

text \<open>Lines 273 to 316: the service-level definitions of an accepted service.\<close>

definition add_service_resolvers ::
  "string \<Rightarrow> (string \<times> (string \<times> resolver_decl) list) list \<Rightarrow>
   (string \<times> (string \<times> resolver) list) list \<Rightarrow> (string \<times> (string \<times> resolver) list) list" where
  "add_service_resolvers serviceName declared acc =
     foldl (\<lambda>acc (type_name, resolver).
              merge_type acc type_name (createServiceResolvers serviceName resolver))
       acc declared"

definition compile_service_level :: "string \<Rightarrow> graphql_def \<Rightarrow> composition \<Rightarrow> composition" where
  "compile_service_level serviceName globalDef c =
     c\<lparr>queries := concat_fragment (queries c) (gql_query globalDef),
       mutations := concat_fragment (mutations c) (gql_mutation globalDef),
       subscriptions := concat_fragment (subscriptions c) (gql_subscription globalDef),
       types := concat_fragment (types c) (gql_type globalDef),
       interfaces := concat_fragment (interfaces c) (gql_interface globalDef),
       unions := concat_fragment (unions c) (gql_union globalDef),
       enums := concat_fragment (enums c) (gql_enum globalDef),
       inputs := concat_fragment (inputs c) (gql_input globalDef),
       resolvers := (case gql_resolvers globalDef of
                       None \<Rightarrow> resolvers c
                     | Some declared \<Rightarrow> add_service_resolvers serviceName declared (resolvers c))\<rparr>"

text \<open>
  Lines 323 to 386. The state of the loop over the actions of one service is the
  composition and the object \<^verbatim>\<open>resolver\<close> of line 321. A query or mutation
  declaration is pushed and its field bound to a resolver of the action. A
  subscription declaration is pushed and then \<^verbatim>\<open>createAsyncIteratorResolver\<close> is
  called, whose exception leaves the loop.
\<close>

definition ensure_type :: "string \<Rightarrow> (string \<times> (string \<times> resolver) list) list \<Rightarrow> (string \<times> (string \<times> resolver) list) list" where
  "ensure_type type_name resolver =
     (case map_of resolver type_name of
        None \<Rightarrow> AList.update type_name [] resolver
      | Some existing \<Rightarrow> resolver)"

definition set_field ::
  "string \<Rightarrow> string \<Rightarrow> resolver \<Rightarrow> (string \<times> (string \<times> resolver) list) list \<Rightarrow>
   (string \<times> (string \<times> resolver) list) list" where
  "set_field type_name field r resolver =
     AList.update type_name
       (AList.update field r (case map_of resolver type_name of None \<Rightarrow> [] | Some existing \<Rightarrow> existing))
       resolver"

type_synonym action_state = "composition \<times> (string \<times> (string \<times> resolver) list) list"

definition add_queries :: "string \<Rightarrow> string list \<Rightarrow> action_state \<Rightarrow> action_state" where
  "add_queries actionName declarations st =
     foldl (\<lambda>(c, resolver) query.
              (c\<lparr>queries := queries c @ [query]\<rparr>,
               set_field ''Query'' (getFieldName query) (ActionResolver actionName empty_def) resolver))
       st declarations"

definition add_mutations :: "string \<Rightarrow> string list \<Rightarrow> action_state \<Rightarrow> action_state" where
  "add_mutations actionName declarations st =
     foldl (\<lambda>(c, resolver) mutation.
              (c\<lparr>mutations := mutations c @ [mutation]\<rparr>,
               set_field ''Mutation'' (getFieldName mutation) (ActionResolver actionName empty_def) resolver))
       st declarations"

fun add_subscriptions ::
  "string \<Rightarrow> jsval \<Rightarrow> jsval \<Rightarrow> string list \<Rightarrow> action_state \<Rightarrow> jsval + action_state" where
  "add_subscriptions actionName tags filter' [] st = Inr st"
| "add_subscriptions actionName tags filter' (subscription # declarations) (c, resolver) =
     (case createAsyncIteratorResolver actionName tags filter' of
        Inl err \<Rightarrow> Inl err
      | Inr r \<Rightarrow>
          add_subscriptions actionName tags filter' declarations
            (c\<lparr>subscriptions := subscriptions c @ [subscription]\<rparr>,
             set_field ''Subscription'' (getFieldName subscription) r resolver))"

definition action_queries :: "action_descriptor \<Rightarrow> graphql_def \<Rightarrow> action_state \<Rightarrow> action_state" where
  "action_queries a def st =
     (if fragment_truthy (gql_query def)
      then add_queries (action_name a) (castArray (gql_query def))
             (fst st, ensure_type ''Query'' (snd st))
      else st)"

definition action_mutations :: "action_descriptor \<Rightarrow> graphql_def \<Rightarrow> action_state \<Rightarrow> action_state" where
  "action_mutations a def st =
     (if fragment_truthy (gql_mutation def)
      then add_mutations (action_name a) (castArray (gql_mutation def))
             (fst st, ensure_type ''Mutation'' (snd st))
      else st)"

definition action_subscriptions ::
  "action_descriptor \<Rightarrow> graphql_def \<Rightarrow> action_state \<Rightarrow> jsval + action_state" where
  "action_subscriptions a def st =
     (if fragment_truthy (gql_subscription def)
      then add_subscriptions (action_name a) (gql_tags def) (gql_filter def)
             (castArray (gql_subscription def))
             (fst st, ensure_type ''Subscription'' (snd st))
      else Inr st)"

definition action_types :: "graphql_def \<Rightarrow> action_state \<Rightarrow> action_state" where
  "action_types def st =
     ((fst st)\<lparr>types := concat_fragment (types (fst st)) (gql_type def),
               interfaces := concat_fragment (interfaces (fst st)) (gql_interface def),
               unions := concat_fragment (unions (fst st)) (gql_union def),
               enums := concat_fragment (enums (fst st)) (gql_enum def),
               inputs := concat_fragment (inputs (fst st)) (gql_input def)\<rparr>,
      snd st)"

definition compile_action :: "action_descriptor \<Rightarrow> action_state \<Rightarrow> jsval + action_state" where
  "compile_action a st =
     (case action_graphql a of
        None \<Rightarrow> Inr st
      | Some def \<Rightarrow>
          (case action_subscriptions a def (action_mutations a def (action_queries a def st)) of
             Inl err \<Rightarrow> Inl err
           | Inr st' \<Rightarrow> Inr (action_types def st')))"

fun compile_actions :: "action_descriptor list \<Rightarrow> action_state \<Rightarrow> jsval + action_state" where
  "compile_actions [] st = Inr st"
| "compile_actions (a # as) st =
     (case compile_action a st of
        Inl err \<Rightarrow> Inl err
      | Inr st' \<Rightarrow> compile_actions as st')"

text \<open>
  Lines 268 to 390: the body of the loop for a service that is not skipped. The
  action-level resolvers are merged into the resolver map type by type.
\<close>

definition compile_service :: "service \<Rightarrow> composition \<Rightarrow> jsval + composition" where
  "compile_service service c =
     (let serviceName = getServiceName service;
          c1 = (case settings_graphql service of
                  None \<Rightarrow> c
                | Some globalDef \<Rightarrow> compile_service_level serviceName globalDef c)
      in (case compile_actions (actions service) (c1, []) of
            Inl err \<Rightarrow> Inl err
          | Inr (c2, resolver) \<Rightarrow>
              Inr (if resolver \<noteq> []
                   then c2\<lparr>resolvers := foldl (\<lambda>acc (type_name, field_map). merge_type acc type_name field_map)
                                           (resolvers c2) resolver\<rparr>
                   else c2)))"

text \<open>
  Lines 261 to 266: one step of \<^verbatim>\<open>services.forEach\<close>. A service whose name is in
  \<^verbatim>\<open>processedServices\<close> is skipped; otherwise its name is added and it is compiled.
\<close>

definition visit_service :: "service \<Rightarrow> composition \<Rightarrow> jsval + composition" where
  "visit_service service c =
     (let serviceName = getServiceName service
      in if serviceName \<in> processedServices c then Inr c
         else compile_service service (c\<lparr>processedServices := insert serviceName (processedServices c)\<rparr>))"

fun visit_services :: "service list \<Rightarrow> composition \<Rightarrow> jsval + composition" where
  "visit_services [] c = Inr c"
| "visit_services (service # services) c =
     (case visit_service service c of
        Inl err \<Rightarrow> Inl err
      | Inr c' \<Rightarrow> visit_services services c')"

text \<open>Lines 234 to 259: the state before the loop.\<close>

definition initial_composition :: "mixin_options \<Rightarrow> composition" where
  "initial_composition mixinOptions =
     \<lparr>queries = [], mutations = [], subscriptions = [], types = [], interfaces = [],
      unions = [], enums = [], inputs = [],
      resolvers = (case opt_resolvers mixinOptions of None \<Rightarrow> [] | Some given \<Rightarrow> given),
      processedServices = {}\<rparr>"

text \<open>\<^verbatim>\<open>list.join("\n")\<close>.\<close>

fun join_lines :: "string list \<Rightarrow> string" where
  "join_lines [] = []"
| "join_lines [s] = s"
| "join_lines (s # t # ss) = s @ [newline] @ join_lines (t # ss)"

text \<open>
  Lines 403 to 456: the template literals, with the line breaks and tabs that the
  source file has inside them.
\<close>

definition root_type_text :: "string \<Rightarrow> string list \<Rightarrow> string" where
  "root_type_text type_name declarations =
     (if declarations = [] then []
      else [newline] @ replicate 8 tab @ ''type '' @ type_name @ '' {'' @
           [newline] @ replicate 9 tab @ join_lines declarations @
           [newline] @ replicate 8 tab @ ''}'' @
           [newline] @ replicate 7 tab)"

definition fragments_text :: "string list \<Rightarrow> string" where
  "fragments_text declarations =
     (if declarations = [] then []
      else [newline] @ replicate 8 tab @ join_lines declarations @ [newline] @ replicate 7 tab)"

definition schema_text :: "composition \<Rightarrow> string" where
  "schema_text c =
     root_type_text ''Query'' (queries c) @ root_type_text ''Mutation'' (mutations c) @
     root_type_text ''Subscription'' (subscriptions c) @ fragments_text (types c) @
     fragments_text (interfaces c) @ fragments_text (unions c) @ fragments_text (enums c) @
     fragments_text (inputs c)"

text \<open>Lines 393 to 461: what the schema builder is given once the loop is over.\<close>

definition schema_source_of :: "mixin_options \<Rightarrow> composition \<Rightarrow> schema_source" where
  "schema_source_of mixinOptions c =
     \<lparr>typeDefs = concat_fragment [] (opt_typeDefs mixinOptions) @
        (if queries c \<noteq> [] \<or> types c \<noteq> [] \<or> mutations c \<noteq> [] \<or> subscriptions c \<noteq> [] \<or>
            interfaces c \<noteq> [] \<or> unions c \<noteq> [] \<or> enums c \<noteq> [] \<or> inputs c \<noteq> []
         then [schema_text c] else []),
      schema_resolvers = resolvers c,
      schemaDirectives = (if truthy (opt_schemaDirectives mixinOptions)
                          then opt_schemaDirectives mixinOptions else JNull)\<rparr>"

definition MoleculerServerError :: "string \<Rightarrow> int \<Rightarrow> string \<Rightarrow> jsval \<Rightarrow> jsval" where
  "MoleculerServerError message code type_name data' =
     JObj [(''name'', JStr ''MoleculerServerError''), (''message'', JStr message),
           (''code'', JNum code), (''type'', JStr type_name), (''data'', data')]"

text \<open>The \<^verbatim>\<open>try\<close> block of \<^verbatim>\<open>generateGraphQLSchema\<close> up to the call of the schema builder.\<close>

definition compose :: "mixin_options \<Rightarrow> service list \<Rightarrow> jsval + schema_source" where
  "compose mixinOptions services =
     (case visit_services services (initial_composition mixinOptions) of
        Inl err \<Rightarrow> Inl err
      | Inr c \<Rightarrow> Inr (schema_source_of mixinOptions c))"

text \<open>
  \<^verbatim>\<open>generateGraphQLSchema(services)\<close>, lines 232 to 470. \<open>makeExecutableSchema\<close> is
  the schema builder of graphql-tools: it throws or returns the executable schema.
  Whatever is thrown inside the \<^verbatim>\<open>try\<close> block is wrapped by the \<^verbatim>\<open>catch\<close> block.
\<close>

definition generateGraphQLSchema ::
  "mixin_options \<Rightarrow> (schema_source \<Rightarrow> jsval + 's) \<Rightarrow> service list \<Rightarrow> jsval + 's" where
  "generateGraphQLSchema mixinOptions makeExecutableSchema services =
     (case (case compose mixinOptions services of
              Inl err \<Rightarrow> Inl err
            | Inr source \<Rightarrow> makeExecutableSchema source) of
        Inl err \<Rightarrow>
          Inl (MoleculerServerError ''Unable to compile GraphQL schema'' 500
                 ''UNABLE_COMPILE_GRAPHQL_SCHEMA'' (JObj [(''err'', err)]))
      | Inr schema \<Rightarrow> Inr schema)"

section \<open>Processing first occurrences only\<close>















section \<open>The loader registry\<close>

text \<open>
  A batching unit is the \<^verbatim>\<open>DataLoader\<close> of lines 580 to 603, given by what its batch
  function closes over: the action name, the parameter that receives the keys, the
  static \<^verbatim>\<open>params\<close> and the meta mapping. \<open>batch_call_params\<close> is the parameter
  object of the one remote call that the batch function makes for a list of keys.
\<close>

datatype batching_unit = DataLoader string string "(string \<times> jsval) list" "(string \<times> string) list"

fun batch_call_params :: "batching_unit \<Rightarrow> jsval \<Rightarrow> jsval list \<Rightarrow> (string \<times> jsval) list" where
  "batch_call_params (DataLoader resolverActionName actionParam static mapping) ctx_meta keys =
     defaultsDeep [(actionParam, JArr keys)] [static, entries (set_from ctx_meta mapping (JObj []))]"

text \<open>
  Lines 563 to 608: one step of the innermost \<^verbatim>\<open>reduce\<close>. \<^verbatim>\<open>actionParam\<close> is the
  first value of \<^verbatim>\<open>rootParams\<close>, \<^verbatim>\<open>undefined\<close> when the mapping is empty; the unit is
  created when \<^verbatim>\<open>dataLoader && actionParam\<close> is truthy and the name has no unit yet.
  \<^verbatim>\<open>getResolverActionName\<close> calls \<^verbatim>\<open>action.indexOf\<close>, a \<^verbatim>\<open>TypeError\<close> when the
  object has no action.
\<close>

definition field_loader ::
  "string \<Rightarrow> resolver_decl \<Rightarrow> (string \<times> batching_unit) list \<Rightarrow> jsval + (string \<times> batching_unit) list" where
  "field_loader serviceName resolver fieldAccum =
     (case resolver of
        NotPlainObject v \<Rightarrow> Inr fieldAccum
      | PlainObject def \<Rightarrow>
          (case map snd (rootParams def) of
             [] \<Rightarrow> Inr fieldAccum
           | actionParam # others \<Rightarrow>
               if dataLoader def \<and> actionParam \<noteq> [] then
                 (case action def of
                    None \<Rightarrow> Inl TypeError
                  | Some a \<Rightarrow>
                      (let resolverActionName = getResolverActionName serviceName a
                       in if map_of fieldAccum resolverActionName = None
                          then Inr (AList.update resolverActionName
                                      (DataLoader resolverActionName actionParam (params def) (metaParams def))
                                      fieldAccum)
                          else Inr fieldAccum))
               else Inr fieldAccum))"

fun field_loaders ::
  "string \<Rightarrow> resolver_decl list \<Rightarrow> (string \<times> batching_unit) list \<Rightarrow> jsval + (string \<times> batching_unit) list" where
  "field_loaders serviceName [] fieldAccum = Inr fieldAccum"
| "field_loaders serviceName (resolver # rest) fieldAccum =
     (case field_loader serviceName resolver fieldAccum of
        Inl err \<Rightarrow> Inl err
      | Inr fieldAccum' \<Rightarrow> field_loaders serviceName rest fieldAccum')"

text \<open>\<^verbatim>\<open>{ ...a, ...b }\<close>: the properties of \<open>b\<close> are assigned over a copy of \<open>a\<close>.\<close>

definition spread :: "(string \<times> 'v) list \<Rightarrow> (string \<times> 'v) list \<Rightarrow> (string \<times> 'v) list" where
  "spread a b = foldl (\<lambda>acc (k, v). AList.update k v acc) a b"

text \<open>Lines 560 to 615: the \<^verbatim>\<open>reduce\<close> over the types of one service's resolvers.\<close>

fun type_loaders ::
  "string \<Rightarrow> (string \<times> resolver_decl) list list \<Rightarrow> (string \<times> batching_unit) list \<Rightarrow>
   jsval + (string \<times> batching_unit) list" where
  "type_loaders serviceName [] resolverAccum = Inr resolverAccum"
| "type_loaders serviceName (type_fields # rest) resolverAccum =
     (case field_loaders serviceName (map snd type_fields) [] of
        Inl err \<Rightarrow> Inl err
      | Inr resolverLoaders \<Rightarrow> type_loaders serviceName rest (spread resolverAccum resolverLoaders))"

text \<open>
  \<^verbatim>\<open>createLoaders(ctx, services)\<close>, lines 552 to 622: the \<^verbatim>\<open>reduce\<close> over the
  services. Every service of the list is visited; none is skipped for its name.
\<close>

definition service_loaders ::
  "service \<Rightarrow> (string \<times> batching_unit) list \<Rightarrow> jsval + (string \<times> batching_unit) list" where
  "service_loaders service serviceAccum =
     (case settings_graphql service of
        None \<Rightarrow> Inr serviceAccum
      | Some graphql \<Rightarrow>
          (case gql_resolvers graphql of
             None \<Rightarrow> Inr serviceAccum
           | Some declared \<Rightarrow>
               (case type_loaders (getServiceName service) (map snd declared) [] of
                  Inl err \<Rightarrow> Inl err
                | Inr typeLoaders \<Rightarrow> Inr (spread serviceAccum typeLoaders))))"

fun loaders_from :: "service list \<Rightarrow> (string \<times> batching_unit) list \<Rightarrow> jsval + (string \<times> batching_unit) list" where
  "loaders_from [] serviceAccum = Inr serviceAccum"
| "loaders_from (service # services) serviceAccum =
     (case service_loaders service serviceAccum of
        Inl err \<Rightarrow> Inl err
      | Inr serviceAccum' \<Rightarrow> loaders_from services serviceAccum')"

definition createLoaders :: "service list \<Rightarrow> jsval + (string \<times> batching_unit) list" where
  "createLoaders services = loaders_from services []"

section \<open>The registry, stated from the declarations\<close>

text \<open>
  The definitions of this section do not come from the source. \<open>batched_targets\<close>
  lists, for a composed resolver map, the action of every resolver built with the loader
  flag, with whether its root mapping is non-empty. \<open>registry_as_specified\<close> is claim
  C9 in the words of the specification: a name targeted by such a resolver with a
  non-empty root mapping has exactly one unit, and a name targeted only by such
  resolvers with an empty root mapping has none.
\<close>

definition batched_targets :: "(string \<times> (string \<times> resolver) list) list \<Rightarrow> (string \<times> bool) list" where
  "batched_targets composed =
     concat (map (\<lambda>(type_name, field_map).
              concat (map (\<lambda>(field, r).
                        (case r of
                           ActionResolver a def \<Rightarrow> if dataLoader def then [(a, rootParams def \<noteq> [])] else []
                         | Merged ds \<Rightarrow> []))
                      field_map))
            composed)"

definition registry_as_specified ::
  "(string \<times> (string \<times> resolver) list) list \<Rightarrow> (string \<times> batching_unit) list \<Rightarrow> bool" where
  "registry_as_specified composed registry \<longleftrightarrow>
     list_all (\<lambda>(a, rooted).
                 if rooted then length (filter (\<lambda>e. fst e = a) registry) = 1
                 else (a, True) \<in> set (batched_targets composed) \<or> a \<notin> set (map fst registry))
       (batched_targets composed)"

text \<open>
  The declarations that create a unit, read off the service list itself: every plain
  object in a service's resolver settings that has the loader flag and a non-empty first
  root parameter contributes its resolved action name.
\<close>

definition declares_unit :: "resolver_decl \<Rightarrow> bool" where
  "declares_unit r =
     (case r of
        PlainObject def \<Rightarrow> dataLoader def \<and> rootParams def \<noteq> [] \<and> snd (hd (rootParams def)) \<noteq> []
      | NotPlainObject v \<Rightarrow> False)"

definition declared_resolvers :: "service \<Rightarrow> resolver_decl list" where
  "declared_resolvers service =
     (case settings_graphql service of
        None \<Rightarrow> []
      | Some graphql \<Rightarrow>
          (case gql_resolvers graphql of
             None \<Rightarrow> []
           | Some declared \<Rightarrow> concat (map (\<lambda>type_entry. map snd (snd type_entry)) declared)))"

definition unit_name :: "string \<Rightarrow> resolver_decl \<Rightarrow> string" where
  "unit_name serviceName r =
     (case r of
        PlainObject def \<Rightarrow>
          (case action def of Some a \<Rightarrow> getResolverActionName serviceName a | None \<Rightarrow> [])
      | NotPlainObject v \<Rightarrow> [])"

definition declared_units :: "service list \<Rightarrow> string list" where
  "declared_units services =
     concat (map (\<lambda>service.
                    map (unit_name (getServiceName service))
                      (filter declares_unit (declared_resolvers service)))
                 services)"

text \<open>
  \<open>unit_targets\<close> lists, for a composed resolver map, the action of every resolver
  that was created from a definition with the loader flag and a non-empty first root
  parameter. \<open>unwired\<close> says that the resolvers given in the mixin options hold no such
  resolver (they are functions and values of the user's own).
\<close>

definition unit_targets :: "(string \<times> (string \<times> resolver) list) list \<Rightarrow> string list" where
  "unit_targets composed =
     concat (map (\<lambda>(type_name, field_map).
              concat (map (\<lambda>(field, r).
                        (case r of
                           ActionResolver a def \<Rightarrow> if declares_unit (PlainObject def) then [a] else []
                         | Merged ds \<Rightarrow> []))
                      field_map))
            composed)"

definition unwired :: "(string \<times> (string \<times> resolver) list) list option \<Rightarrow> bool" where
  "unwired given = (case given of None \<Rightarrow> True | Some m \<Rightarrow> unit_targets m = [])"

text \<open>
  Where the resolvers of a composed map come from. \<open>binds m a def\<close>: some field of some
  type of \<open>m\<close> is bound to the resolver of action \<open>a\<close> created from \<open>def\<close>.
  \<open>declared_by s a def\<close>: the resolver settings of service \<open>s\<close> hold the plain object
  \<open>def\<close>, whose action resolves to \<open>a\<close>. \<open>bare m\<close>: every resolver of an action in \<open>m\<close>
  was created without a definition, as those of line 321 are.
\<close>

definition binds :: "(string \<times> (string \<times> resolver) list) list \<Rightarrow> string \<Rightarrow> resolver_def \<Rightarrow> bool" where
  "binds m a def \<longleftrightarrow> (\<exists>tn fm f. (tn, fm) \<in> set m \<and> (f, ActionResolver a def) \<in> set fm)"

definition declared_by :: "service \<Rightarrow> string \<Rightarrow> resolver_def \<Rightarrow> bool" where
  "declared_by s a def \<longleftrightarrow>
     PlainObject def \<in> set (declared_resolvers s) \<and>
     (\<exists>act. action def = Some act \<and> a = getResolverActionName (getServiceName s) act)"

definition bare :: "(string \<times> (string \<times> resolver) list) list \<Rightarrow> bool" where
  "bare m \<longleftrightarrow> (\<forall>a def. binds m a def \<longrightarrow> def = empty_def)"

section \<open>The schema lifecycle\<close>

text \<open>
  The fields of the service that \<^verbatim>\<open>created()\<close> initialises (lines 626 to 630) and
  \<^verbatim>\<open>prepareGraphQLSchema\<close> updates. A server, its handler and a pub/sub instance are
  identified by the number of the rebuild attempt that made them. \<open>service_list\<close> is what
  \<^verbatim>\<open>broker.registry.getServiceList\<close> returns at the moment. Three fields record what
  the service did: \<open>recreate_logged\<close> counts the messages of line 479, written by
  every call that finds the schema out of date; \<open>rebuilds\<close> counts the entries into
  the \<^verbatim>\<open>try\<close> block of line 487, the rebuild attempts; \<open>broadcasts\<close> are the schemas
  announced on line 537.
\<close>

record 's lifecycle =
  apolloServer :: "nat option"
  graphqlHandler :: "nat option"
  graphqlSchema :: "'s option"
  pubsub :: "nat option"
  shouldUpdateGraphqlSchema :: bool
  service_list :: "service list"
  recreate_logged :: nat
  rebuilds :: nat
  stopped :: "nat list"
  broadcasts :: "'s list"

text \<open>
  What the lifecycle takes from outside: the mixin options, the schema builder, the
  service's own name (\<^verbatim>\<open>this.name\<close>), and whether \<^verbatim>\<open>apolloServer.stop()\<close> is
  rejected. The constructor of the server, \<^verbatim>\<open>createHandler\<close>,
  \<^verbatim>\<open>installSubscriptionHandlers\<close>, \<^verbatim>\<open>printSchema\<close> and \<^verbatim>\<open>broadcast\<close> are taken not
  to throw.
\<close>

record 's environment =
  options :: mixin_options
  schema_builder :: "schema_source \<Rightarrow> jsval + 's"
  own_name :: string
  stop_error :: "jsval option"

definition created :: "service list \<Rightarrow> 's lifecycle" where
  "created services =
     \<lparr>apolloServer = None, graphqlHandler = None, graphqlSchema = None, pubsub = None,
      shouldUpdateGraphqlSchema = True, service_list = services, recreate_logged = 0, rebuilds = 0,
      stopped = [], broadcasts = []\<rparr>"

text \<open>
  The event \<^verbatim>\<open>$services.changed\<close> (lines 34 to 36, with \<^verbatim>\<open>invalidateGraphQLSchema\<close>),
  together with the change of the registry that it reports.
\<close>

definition services_changed :: "service list \<Rightarrow> 's lifecycle \<Rightarrow> 's lifecycle" where
  "services_changed services life = life\<lparr>service_list := services, shouldUpdateGraphqlSchema := True\<rparr>"

text \<open>The test of line 474, negated: a rebuild is owed.\<close>

definition stale :: "'s lifecycle \<Rightarrow> bool" where
  "stale life \<longleftrightarrow> shouldUpdateGraphqlSchema life \<or> graphqlHandler life = None"

text \<open>
  Lines 487 to 543, which contain no \<^verbatim>\<open>await\<close> and so run without interruption: a
  new pub/sub instance, the snapshot of the service list, the composition, and on
  success the new server, handler and schema, the cleared flag and the broadcast. When
  the composition throws, the \<^verbatim>\<open>catch\<close> block logs the error and throws it again;
  the assignments after line 493 have not happened.
\<close>

definition snapshot :: "'s environment \<Rightarrow> 's lifecycle \<Rightarrow> service list" where
  "snapshot env life =
     (if onlyIncludeCurrentService (options env)
      then filter (\<lambda>s. name s = own_name env) (service_list life)
      else service_list life)"

definition rebuild :: "'s environment \<Rightarrow> 's lifecycle \<Rightarrow> (jsval + unit) \<times> 's lifecycle" where
  "rebuild env life =
     (let attempt = Suc (rebuilds life);
          life1 = life\<lparr>rebuilds := attempt, pubsub := Some attempt\<rparr>;
          services = snapshot env life1
      in (case generateGraphQLSchema (options env) (schema_builder env) services of
            Inl err \<Rightarrow> (Inl err, life1)
          | Inr schema \<Rightarrow>
              (Inr (),
               life1\<lparr>apolloServer := Some attempt, graphqlHandler := Some attempt,
                     graphqlSchema := Some schema, shouldUpdateGraphqlSchema := False,
                     broadcasts := broadcasts life1 @ [schema]\<rparr>)))"

text \<open>
  One call of \<^verbatim>\<open>prepareGraphQLSchema\<close> is a demand. It runs in segments that end at
  an \<^verbatim>\<open>await\<close>; between two segments of one call, segments of other calls may run.
  The only \<^verbatim>\<open>await\<close> is that of line 484, reached when a server is installed. A
  demand has not started yet, or waits for \<^verbatim>\<open>stop()\<close>, or has returned or thrown.
\<close>

datatype demand = Entry | AwaitingStop | Returned "jsval + unit"

text \<open>
  The next segment of a demand. From \<open>Entry\<close>: lines 474 to 485, and when no server
  is installed the rebuild as well, in the same segment. From \<open>AwaitingStop\<close>: the
  rejection of \<^verbatim>\<open>stop()\<close> is thrown (line 484 is outside the \<^verbatim>\<open>try\<close> block), or the
  rebuild runs.
\<close>

fun segment :: "'s environment \<Rightarrow> demand \<Rightarrow> 's lifecycle \<Rightarrow> demand \<times> 's lifecycle" where
  "segment env Entry life =
     (if \<not> stale life then (Returned (Inr ()), life)
      else
        (let life1 = life\<lparr>recreate_logged := Suc (recreate_logged life)\<rparr>
         in (case apolloServer life1 of
               Some server \<Rightarrow> (AwaitingStop, life1\<lparr>stopped := stopped life1 @ [server]\<rparr>)
             | None \<Rightarrow> (case rebuild env life1 of (outcome, life2) \<Rightarrow> (Returned outcome, life2)))))"
| "segment env AwaitingStop life =
     (case stop_error env of
        Some err \<Rightarrow> (Returned (Inl err), life)
      | None \<Rightarrow> (case rebuild env life of (outcome, life') \<Rightarrow> (Returned outcome, life')))"
| "segment env (Returned outcome) life = (Returned outcome, life)"

text \<open>
  The service with its pending demands. \<open>advance env i\<close> runs the next segment of
  demand \<open>i\<close>; a schedule is the order in which the event loop runs segments.
\<close>

type_synonym 's system = "'s lifecycle \<times> demand list"

definition advance :: "'s environment \<Rightarrow> nat \<Rightarrow> 's system \<Rightarrow> 's system" where
  "advance env i sys =
     (case sys of
        (life, demands) \<Rightarrow>
          if i < length demands
          then (case segment env (demands ! i) life of
                  (d, life') \<Rightarrow> (life', demands[i := d]))
          else sys)"

definition run :: "'s environment \<Rightarrow> nat list \<Rightarrow> 's system \<Rightarrow> 's system" where
  "run env schedule sys = foldl (\<lambda>sys i. advance env i sys) sys schedule"

text \<open>A demand with nothing else running: its segments one after the other.\<close>

definition prepareGraphQLSchema :: "'s environment \<Rightarrow> 's lifecycle \<Rightarrow> (jsval + unit) \<times> 's lifecycle" where
  "prepareGraphQLSchema env life =
     (case segment env Entry life of
        (Returned outcome, life') \<Rightarrow> (outcome, life')
      | (d, life') \<Rightarrow>
          (case segment env d life' of
             (Returned outcome, life'') \<Rightarrow> (outcome, life'')
           | (d', life'') \<Rightarrow> (Inr (), life'')))"

text \<open>The demands of a system that wait for \<^verbatim>\<open>stop()\<close>, and whether all have returned.\<close>

definition awaiting :: "demand list \<Rightarrow> nat" where
  "awaiting demands = length (filter (\<lambda>d. d = AwaitingStop) demands)"

definition all_returned :: "demand list \<Rightarrow> bool" where
  "all_returned demands = list_all (\<lambda>d. case d of Returned outcome \<Rightarrow> True | _ \<Rightarrow> False) demands"

section \<open>Counting rebuild attempts\<close>

text \<open>
  The definitions of this section do not come from the source; the properties of
  concurrent demands are stated with them. \<open>balance\<close> adds the rebuild attempts made
  to the demands that wait for \<^verbatim>\<open>stop()\<close> and will make one; \<open>started\<close> says that no
  demand is at its entry any more; \<open>attempt_outcome\<close> is what a rebuild attempt on the
  current service list returns or throws; \<open>settled\<close> says that the service list is the
  one of \<open>life0\<close> and every demand waits or has returned that outcome.
\<close>

definition balance :: "'s system \<Rightarrow> nat" where
  "balance sys = rebuilds (fst sys) + awaiting (snd sys)"

definition started :: "demand list \<Rightarrow> bool" where
  "started demands = list_all (\<lambda>d. d \<noteq> Entry) demands"

definition attempt_outcome :: "'s environment \<Rightarrow> 's lifecycle \<Rightarrow> jsval + unit" where
  "attempt_outcome env life =
     (case generateGraphQLSchema (options env) (schema_builder env) (snapshot env life) of
        Inl err \<Rightarrow> Inl err
      | Inr schema \<Rightarrow> Inr ())"

definition settled :: "'s environment \<Rightarrow> 's lifecycle \<Rightarrow> 's system \<Rightarrow> bool" where
  "settled env life0 sys \<longleftrightarrow>
     snapshot env (fst sys) = snapshot env life0 \<and>
     list_all (\<lambda>d. d = AwaitingStop \<or> d = Returned (attempt_outcome env life0)) (snd sys)"

section \<open>Sample inputs\<close>

text \<open>Concrete definitions, contexts and descriptors on which the theorems are exercised.\<close>

definition sample_batched_no_root :: resolver_def where
  "sample_batched_no_root =
     \<lparr>action = Some ''author'', dataLoader = True, nullIfError = False, params = [],
      argParams = [], rootParams = [], metaParams = []\<rparr>"


definition sample_direct :: resolver_def where
  "sample_direct =
     \<lparr>action = Some ''posts.find'', dataLoader = False, nullIfError = False, params = [],
      argParams = [], rootParams = [], metaParams = []\<rparr>"

definition sample_context :: execution_context where
  "sample_context =
     \<lparr>meta = JObj [],
      call = (\<lambda>actionName payload. Inr (JStr ''called'')),
      loaders = Some (\<lambda>actionName. Some (\<lambda>key. LoadResolves (JObj [(''id'', key)]))),
      first_rejected = (\<lambda>reasons. case reasons of [] \<Rightarrow> JUndefined | r # rs \<Rightarrow> r)\<rparr>"

definition sample_error :: jsval where
  "sample_error = JObj [(''message'', JStr ''not found''), (''ctx'', JObj [(''id'', JNum 1)])]"

definition sample_failing_context :: execution_context where
  "sample_failing_context =
     \<lparr>meta = JObj [],
      call = (\<lambda>actionName payload. Inl sample_error),
      loaders = None,
      first_rejected = (\<lambda>reasons. case reasons of [] \<Rightarrow> JUndefined | r # rs \<Rightarrow> r)\<rparr>"




definition sample_options :: mixin_options where
  "sample_options =
     \<lparr>opt_typeDefs = Absent, opt_resolvers = None, opt_schemaDirectives = JUndefined,
      onlyIncludeCurrentService = False\<rparr>"

definition no_graphql :: graphql_def where
  "no_graphql =
     \<lparr>gql_query = Absent, gql_mutation = Absent, gql_subscription = Absent, gql_type = Absent,
      gql_interface = Absent, gql_union = Absent, gql_enum = Absent, gql_input = Absent,
      gql_resolvers = None, gql_tags = JUndefined, gql_filter = JUndefined\<rparr>"

definition sample_posts :: service where
  "sample_posts =
     \<lparr>name = ''posts'', version = NoVersion, fullName = None,
      settings_graphql = Some (no_graphql\<lparr>gql_query := Single ''posts: [Post]'',
                                             gql_type := Single ''type Post { id: Int }''\<rparr>),
      actions = []\<rparr>"

definition sample_users :: service where
  "sample_users =
     \<lparr>name = ''users'', version = NumberVersion 2, fullName = None,
      settings_graphql = Some (no_graphql\<lparr>gql_query := Single ''users: [User]''\<rparr>),
      actions = []\<rparr>"

definition sample_votes :: service where
  "sample_votes =
     \<lparr>name = ''votes'', version = NoVersion, fullName = None, settings_graphql = None,
      actions = [\<lparr>action_name = ''votes.updated'',
                  action_graphql = Some (no_graphql\<lparr>gql_subscription := Single ''vote: Int'',
                                                        gql_tags := JArr [JStr ''VOTE'']\<rparr>)\<rparr>]\<rparr>"

definition sample_authors_old :: service where
  "sample_authors_old =
     \<lparr>name = ''authors'', version = NoVersion, fullName = None,
      settings_graphql = Some (no_graphql\<lparr>gql_resolvers :=
        Some [(''Post'', [(''author'', PlainObject (sample_batched_no_root\<lparr>action := Some ''resolve''\<rparr>))])]\<rparr>),
      actions = []\<rparr>"

definition sample_authors_new :: service where
  "sample_authors_new =
     \<lparr>name = ''authors'', version = NoVersion, fullName = None,
      settings_graphql = Some (no_graphql\<lparr>gql_resolvers :=
        Some [(''Post'', [(''author'', PlainObject (sample_batched_no_root\<lparr>action := Some ''resolve'',
                                                   rootParams := [(''author'', ''id'')]\<rparr>))])]\<rparr>),
      actions = []\<rparr>"

definition sample_authors_unnamed :: service where
  "sample_authors_unnamed =
     \<lparr>name = ''authors'', version = NoVersion, fullName = None,
      settings_graphql = Some (no_graphql\<lparr>gql_resolvers :=
        Some [(''Post'', [(''author'', PlainObject (sample_batched_no_root\<lparr>action := Some ''resolve'',
                                                   rootParams := [(''author'', [])]\<rparr>))])]\<rparr>),
      actions = []\<rparr>"




definition sample_environment :: "schema_source environment" where
  "sample_environment =
     \<lparr>options = sample_options, schema_builder = (\<lambda>source. Inr source),
      own_name = ''api'', stop_error = None\<rparr>"

definition sample_ready :: "schema_source lifecycle" where
  "sample_ready = snd (prepareGraphQLSchema sample_environment (created [sample_posts]))"

definition sample_stale :: "schema_source lifecycle" where
  "sample_stale = services_changed [sample_posts, sample_users] sample_ready"


section \<open>Properties of the field names\<close>

lemma split_fields_head:
  "(case split_fields s of [] \<Rightarrow> [] | p # ps \<Rightarrow> p) = takeWhile (\<lambda>c. \<not> field_separator c) s"
  by (induction s) (auto split: list.splits)

lemma getFieldName_prefix:
  "getFieldName declaration =
     takeWhile (\<lambda>c. \<not> field_separator c)
       (trim (replace_comments True (replace_quoted declaration)))"
  by (simp add: getFieldName_def split_fields_head)

text \<open>
  Claim C4, on the code as it is. For the declaration of the claim's example,
  \<^verbatim>\<open>"desc" field(arg: Int): String\<close>, the derived name is \<^verbatim>\<open>field\<close>. For
  \<^verbatim>\<open>hello : String\<close> the derived name is \<^verbatim>\<open>hello\<close> followed by a space, not the
  identifier \<^verbatim>\<open>hello\<close>: everything before the first separator is returned, white
  space included. For a declaration whose description holds escaped quotes,
  \<^verbatim>\<open>"say \"hi\"" field: String\<close>, the first replacement pairs the quotes as they
  come and leaves the two letters \<^verbatim>\<open>hi\<close> and a backslash behind, so the derived name
  is these three characters, a space and \<^verbatim>\<open>field\<close>.
\<close>

theorem field_name_is_not_the_identifier:
  "getFieldName (dquote # ''desc'' @ dquote # '' field(arg: Int): String'') = ''field''
   \<and> getFieldName ''hello : String'' = ''hello ''
   \<and> getFieldName (dquote # ''say '' @ [CHR 0x5C, dquote] @ ''hi'' @ [CHR 0x5C, dquote, dquote] @
                     '' field: String'') = ''hi'' @ [CHR 0x5C] @ '' field''"
  by (simp add: getFieldName_prefix trim_def js_space_def match_comment_def field_separator_def)

section \<open>Properties of the action resolvers\<close>

lemma own_prop_assign:
  "own_prop (assign kvs k v) k' = (if k' = k then v else own_prop kvs k')"
  by (induction kvs) auto

lemma scrub_ctx_falsy: "\<not> truthy (member (scrub_ctx err) ''ctx'')"
  by (cases err)
    (auto simp: scrub_ctx_def member_def put_member_def own_prop_assign array_index_def digit_def
      split: option.splits)

lemma scrub_ctx_other: "k \<noteq> ''ctx'' \<Longrightarrow> member (scrub_ctx err) k = member err k"
  by (cases err)
    (auto simp: scrub_ctx_def member_def put_member_def own_prop_assign array_index_def digit_def
      split: option.splits)






text \<open>
  Claim C6. When the remote call behind a direct-call resolver fails with \<open>err\<close>: with
  the null-on-error flag the resolver resolves to null, so the failure is not
  propagated; without it the resolver throws \<open>scrub_ctx err\<close>, which is \<open>err\<close> with no
  truthy \<^verbatim>\<open>ctx\<close> property left and every other property as it was.
\<close>

theorem direct_call_failure:
  assumes "\<not> dataLoader def"
    and "call context actionName (JObj (call_params def root args context)) = Inl err"
  shows "result (createActionResolver actionName def root args context) =
           (if nullIfError def then Inr JNull else Inl (scrub_ctx err))
         \<and> \<not> truthy (member (scrub_ctx err) ''ctx'')
         \<and> (\<forall>k. k \<noteq> ''ctx'' \<longrightarrow> member (scrub_ctx err) k = member err k)"
  using assms
  by (simp add: createActionResolver_def direct_call_def catch_error_def scrub_ctx_falsy
      scrub_ctx_other Let_def)

theorem direct_call_failure_witness:
  "\<not> dataLoader sample_direct \<and>
   call sample_failing_context ''posts.find''
     (JObj (call_params sample_direct JNull [(''limit'', JNum 5)] sample_failing_context)) = Inl sample_error \<and>
   result (createActionResolver ''posts.find'' sample_direct JNull [(''limit'', JNum 5)] sample_failing_context) =
     Inl (JObj [(''message'', JStr ''not found''), (''ctx'', JNull)]) \<and>
   result (createActionResolver ''posts.find'' (sample_direct\<lparr>nullIfError := True\<rparr>) JNull
             [(''limit'', JNum 5)] sample_failing_context) = Inr JNull"
proof -
  have d: "\<not> dataLoader sample_direct" and d': "\<not> dataLoader (sample_direct\<lparr>nullIfError := True\<rparr>)"
    by (simp_all add: sample_direct_def)
  have c: "call sample_failing_context a p = Inl sample_error" for a p
    by (simp add: sample_failing_context_def)
  have s: "scrub_ctx sample_error = JObj [(''message'', JStr ''not found''), (''ctx'', JNull)]"
    by (simp add: scrub_ctx_def sample_error_def member_def put_member_def)
  from direct_call_failure [OF d c] direct_call_failure [OF d' c] s d c show ?thesis
    by (simp add: sample_direct_def)
qed

text \<open>
  Claim C10. A resolver created with the loader flag set and an empty root mapping
  resolves to null on every invocation: whatever the parent value, the arguments and the
  context are, it makes no load, makes no remote call and leaves the arguments as they
  were.
\<close>

theorem batched_without_root_key:
  assumes "dataLoader def" and "rootParams def = []"
  shows "createActionResolver actionName def root args context =
           \<lparr>result = Inr JNull, calls = [], loads = [], args_after = args\<rparr>"
  using assms by (simp add: createActionResolver_def batched_call_def nullish_def)

theorem batched_without_root_key_witness:
  "dataLoader sample_batched_no_root \<and> rootParams sample_batched_no_root = [] \<and>
   createActionResolver ''users.author'' sample_batched_no_root (JObj [(''author'', JNum 7)])
       [(''limit'', JNum 3)] sample_context =
     \<lparr>result = Inr JNull, calls = [], loads = [], args_after = [(''limit'', JNum 3)]\<rparr>"
  using batched_without_root_key [of sample_batched_no_root "''users.author''"
      "JObj [(''author'', JNum 7)]" "[(''limit'', JNum 3)]" sample_context]
  by (simp add: sample_batched_no_root_def)















lemma own_prop_filter:
  "own_prop (filter (\<lambda>kv. fst kv \<notin> S) kvs) k = (if k \<in> S then JUndefined else own_prop kvs k)"
  by (induction kvs) auto







section \<open>Properties of the composition pass\<close>

lemma update_mem:
  "(k', v') \<in> set (AList.update k v al) \<Longrightarrow> (k' = k \<and> v' = v) \<or> (k', v') \<in> set al"
  by (induction al) (auto split: if_splits)



lemma add_subscriptions_throws:
  "add_subscriptions a tags f (d # ds) st = Inl (ReferenceError ''params'')"
  by (cases st) (simp add: createAsyncIteratorResolver_def)

lemma add_subscriptions_returns:
  "add_subscriptions a tags f ds st = Inr st' \<Longrightarrow> ds = [] \<and> st' = st"
  by (cases ds) (simp_all add: add_subscriptions_throws)






















lemma merge_fields_distinct:
  "distinct (map fst obj) \<Longrightarrow> distinct (map fst (merge_fields obj src))"
  unfolding merge_fields_def
  by (induction src arbitrary: obj) (auto simp: distinct_update)

































text \<open>
  Claim C7, on the code as it is. Whatever the action, the tags and the filter are,
  \<^verbatim>\<open>createAsyncIteratorResolver\<close> throws the \<^verbatim>\<open>ReferenceError\<close> of line 210 and
  returns no resolver. A composition pass over a service with one subscription action
  therefore fails, with that error wrapped as the cause.
\<close>

theorem subscription_resolver_throws:
  "createAsyncIteratorResolver ''votes.updated'' (JArr [JStr ''VOTE'']) JUndefined =
     Inl (ReferenceError ''params'')
   \<and> generateGraphQLSchema sample_options (\<lambda>source. Inr source) [sample_votes] =
     Inl (MoleculerServerError ''Unable to compile GraphQL schema'' 500
            ''UNABLE_COMPILE_GRAPHQL_SCHEMA'' (JObj [(''err'', ReferenceError ''params'')]))"
  by (simp add: createAsyncIteratorResolver_def generateGraphQLSchema_def compose_def
      visit_service_def compile_service_def compile_action_def action_subscriptions_def
      action_mutations_def action_queries_def initial_composition_def sample_options_def
      sample_votes_def no_graphql_def getServiceName_def Let_def)

section \<open>Properties of the loader registry\<close>

lemma keys_update: "fst ` set (AList.update k v al) = insert k (fst ` set al)"
  by (simp add: dom_update)

lemma keys_spread: "fst ` set (spread a b) = fst ` set a \<union> fst ` set b"
  unfolding spread_def
proof (induction b arbitrary: a)
  case Nil
  then show ?case by simp
next
  case (Cons e b)
  obtain k v where e: "e = (k, v)" by (cases e)
  show ?case using Cons.IH [of "AList.update k v a"] e by (simp add: keys_update)
qed

lemma distinct_spread: "distinct (map fst a) \<Longrightarrow> distinct (map fst (spread a b))"
  unfolding spread_def
proof (induction b arbitrary: a)
  case Nil
  then show ?case by simp
next
  case (Cons e b)
  obtain k v where e: "e = (k, v)" by (cases e)
  from Cons.prems have "distinct (map fst (AList.update k v a))" by (rule distinct_update)
  from Cons.IH [OF this] e show ?case by simp
qed

lemma field_loader_keys:
  assumes "field_loader n r acc = Inr acc'"
  shows "fst ` set acc' =
           fst ` set acc \<union> (if declares_unit r then {unit_name n r} else {})"
    and "distinct (map fst acc) \<Longrightarrow> distinct (map fst acc')"
proof -
  show "fst ` set acc' =
           fst ` set acc \<union> (if declares_unit r then {unit_name n r} else {})"
  proof (cases r)
    case (NotPlainObject v)
    with assms show ?thesis by (simp add: field_loader_def declares_unit_def)
  next
    case (PlainObject def)
    show ?thesis
    proof (cases "declares_unit r")
      case False
      with assms PlainObject show ?thesis
        by (cases "rootParams def") (auto simp: field_loader_def declares_unit_def)
    next
      case True
      with PlainObject obtain e others where rp: "rootParams def = e # others"
        and p: "snd e \<noteq> []" and d: "dataLoader def"
        by (cases "rootParams def") (auto simp: declares_unit_def)
      from assms PlainObject rp p d obtain a where a: "action def = Some a"
        by (cases "action def") (auto simp: field_loader_def)
      let ?name = "getResolverActionName n a"
      have u: "unit_name n r = ?name" using PlainObject a by (simp add: unit_name_def)
      show ?thesis
      proof (cases "map_of acc ?name")
        case None
        with assms PlainObject rp p d a have "acc' = AList.update ?name
            (DataLoader ?name (snd e) (params def) (metaParams def)) acc"
          by (simp add: field_loader_def Let_def)
        with True u show ?thesis by (simp add: keys_update)
      next
        case (Some unit)
        with assms PlainObject rp p d a have "acc' = acc"
          by (simp add: field_loader_def Let_def)
        moreover from Some have "?name \<in> fst ` set acc"
          by (metis map_of_eq_None_iff option.distinct(1))
        ultimately show ?thesis using True u by auto
      qed
    qed
  qed
  show "distinct (map fst acc')" if "distinct (map fst acc)"
    using assms that
    by (auto simp: field_loader_def Let_def distinct_update
        split: resolver_decl.splits list.splits if_splits option.splits)
qed

lemma field_loaders_keys:
  "field_loaders n rs acc = Inr acc' \<Longrightarrow>
   fst ` set acc' = fst ` set acc \<union> set (map (unit_name n) (filter declares_unit rs))
   \<and> (distinct (map fst acc) \<longrightarrow> distinct (map fst acc'))"
proof (induction rs arbitrary: acc)
  case Nil
  then show ?case by simp
next
  case (Cons r rs)
  then obtain acc1 where 1: "field_loader n r acc = Inr acc1" and 2: "field_loaders n rs acc1 = Inr acc'"
    by (auto split: sum.splits)
  from field_loader_keys [OF 1] Cons.IH [OF 2] show ?case by auto
qed

lemma type_loaders_keys:
  "type_loaders n ts acc = Inr acc' \<Longrightarrow>
   fst ` set acc' =
     fst ` set acc \<union> set (map (unit_name n) (filter declares_unit (concat (map (map snd) ts))))
   \<and> (distinct (map fst acc) \<longrightarrow> distinct (map fst acc'))"
proof (induction ts arbitrary: acc)
  case Nil
  then show ?case by simp
next
  case (Cons t ts)
  then obtain ls where 1: "field_loaders n (map snd t) [] = Inr ls"
    and 2: "type_loaders n ts (spread acc ls) = Inr acc'"
    by (auto split: sum.splits)
  from field_loaders_keys [OF 1]
  have k: "fst ` set ls = set (map (unit_name n) (filter declares_unit (map snd t)))" by simp
  from Cons.IH [OF 2] k show ?case by (auto simp: keys_spread distinct_spread)
qed

lemma service_loaders_keys:
  assumes "service_loaders s acc = Inr acc'"
  shows "fst ` set acc' =
     fst ` set acc \<union> set (map (unit_name (getServiceName s)) (filter declares_unit (declared_resolvers s)))
   \<and> (distinct (map fst acc) \<longrightarrow> distinct (map fst acc'))"
proof (cases "settings_graphql s")
  case None
  with assms show ?thesis by (simp add: service_loaders_def declared_resolvers_def)
next
  case (Some g)
  show ?thesis
  proof (cases "gql_resolvers g")
    case None
    with assms Some show ?thesis by (simp add: service_loaders_def declared_resolvers_def)
  next
    case (Some declared)
    with assms \<open>settings_graphql s = Some g\<close> obtain ls where
      1: "type_loaders (getServiceName s) (map snd declared) [] = Inr ls" and 2: "acc' = spread acc ls"
      by (auto simp: service_loaders_def split: sum.splits)
    have d: "declared_resolvers s = concat (map (map snd) (map snd declared))"
      using Some \<open>settings_graphql s = Some g\<close> by (simp add: declared_resolvers_def comp_def)
    from type_loaders_keys [OF 1] 2 d show ?thesis by (auto simp: keys_spread distinct_spread)
  qed
qed

lemma loaders_from_keys:
  "loaders_from ss acc = Inr acc' \<Longrightarrow>
   fst ` set acc' = fst ` set acc \<union> set (declared_units ss)
   \<and> (distinct (map fst acc) \<longrightarrow> distinct (map fst acc'))"
proof (induction ss arbitrary: acc)
  case Nil
  then show ?case by (simp add: declared_units_def)
next
  case (Cons s ss)
  then obtain acc1 where 1: "service_loaders s acc = Inr acc1" and 2: "loaders_from ss acc1 = Inr acc'"
    by (auto split: sum.splits)
  from service_loaders_keys [OF 1] Cons.IH [OF 2] show ?case
    by (auto simp: declared_units_def)
qed

lemma unit_targets_iff:
  "a \<in> set (unit_targets m) \<longleftrightarrow> (\<exists>def. binds m a def \<and> declares_unit (PlainObject def))"
  unfolding unit_targets_def binds_def
  by (auto split: resolver.splits if_splits) (force split: resolver.splits)+

lemma merge_value_action:
  "merge_value obj src = ActionResolver a def \<Longrightarrow>
   src = ActionResolver a def \<or> obj = Some (ActionResolver a def)"
  by (auto simp: merge_value_def split: resolver.splits option.splits if_splits)

lemma merge_fields_action:
  "(f, ActionResolver a def) \<in> set (merge_fields obj src) \<Longrightarrow>
   (\<exists>f'. (f', ActionResolver a def) \<in> set obj) \<or> (\<exists>f'. (f', ActionResolver a def) \<in> set src)"
  unfolding merge_fields_def
proof (induction src arbitrary: obj)
  case Nil
  then show ?case by auto
next
  case (Cons e src)
  obtain g sv where e: "e = (g, sv)" by (cases e)
  let ?obj = "AList.update g (merge_value (map_of obj g) sv) obj"
  from Cons.prems e have "(f, ActionResolver a def) \<in> set (foldl (\<lambda>acc (field, srcValue).
      AList.update field (merge_value (map_of acc field) srcValue) acc) ?obj src)" by simp
  from Cons.IH [OF this] show ?case
  proof
    assume "\<exists>f'. (f', ActionResolver a def) \<in> set ?obj"
    then obtain f' where "(f', ActionResolver a def) \<in> set ?obj" ..
    from update_mem [OF this] show ?thesis
    proof
      assume "f' = g \<and> ActionResolver a def = merge_value (map_of obj g) sv"
      then have "merge_value (map_of obj g) sv = ActionResolver a def" by simp
      from merge_value_action [OF this] show ?thesis
      proof
        assume "sv = ActionResolver a def"
        with e show ?thesis by auto
      next
        assume "map_of obj g = Some (ActionResolver a def)"
        then have "(g, ActionResolver a def) \<in> set obj" by (rule map_of_SomeD)
        then show ?thesis by auto
      qed
    next
      assume "(f', ActionResolver a def) \<in> set obj"
      then show ?thesis by auto
    qed
  next
    assume "\<exists>f'. (f', ActionResolver a def) \<in> set src"
    then show ?thesis by auto
  qed
qed

lemma merge_type_binds:
  assumes "binds (merge_type acc t fmap) a def"
  shows "binds acc a def \<or> (\<exists>f. (f, ActionResolver a def) \<in> set fmap)"
proof -
  from assms obtain tn fm f where m: "(tn, fm) \<in> set (merge_type acc t fmap)"
    and r: "(f, ActionResolver a def) \<in> set fm"
    unfolding binds_def by blast
  let ?old = "case map_of acc t of None \<Rightarrow> [] | Some existing \<Rightarrow> existing"
  from m have "(tn = t \<and> fm = merge_fields ?old fmap) \<or> (tn, fm) \<in> set acc"
    unfolding merge_type_def by (rule update_mem)
  then show ?thesis
  proof
    assume "tn = t \<and> fm = merge_fields ?old fmap"
    with r have "(f, ActionResolver a def) \<in> set (merge_fields ?old fmap)" by simp
    from merge_fields_action [OF this] show ?thesis
    proof
      assume "\<exists>f'. (f', ActionResolver a def) \<in> set ?old"
      then obtain f' where o: "(f', ActionResolver a def) \<in> set ?old" ..
      then obtain existing where "map_of acc t = Some existing" and "(f', ActionResolver a def) \<in> set existing"
        by (cases "map_of acc t") auto
      then have "(t, existing) \<in> set acc" and "(f', ActionResolver a def) \<in> set existing"
        by (auto dest: map_of_SomeD)
      then show ?thesis unfolding binds_def by blast
    next
      assume "\<exists>f'. (f', ActionResolver a def) \<in> set fmap"
      then show ?thesis by blast
    qed
  next
    assume "(tn, fm) \<in> set acc"
    with r show ?thesis unfolding binds_def by blast
  qed
qed

lemma createServiceResolvers_action:
  "(f, ActionResolver a def) \<in> set (foldl (\<lambda>acc (field, r).
              (case r of
                 PlainObject def \<Rightarrow>
                   (case action def of
                      Some a \<Rightarrow>
                        AList.update field
                          (ActionResolver (getResolverActionName n a) def) acc
                    | None \<Rightarrow> AList.update field (Merged [r]) acc)
               | NotPlainObject v \<Rightarrow> AList.update field (Merged [r]) acc)) acc0 decls) \<Longrightarrow>
   (f, ActionResolver a def) \<in> set acc0 \<or>
   (\<exists>f' act. (f', PlainObject def) \<in> set decls \<and> action def = Some act \<and>
              a = getResolverActionName n act)"
proof (induction decls arbitrary: acc0)
  case Nil
  then show ?case by simp
next
  case (Cons e decls)
  obtain g r where e: "e = (g, r)" by (cases e)
  let ?step = "(case r of
                 PlainObject def \<Rightarrow>
                   (case action def of
                      Some a \<Rightarrow>
                        AList.update g
                          (ActionResolver (getResolverActionName n a) def) acc0
                    | None \<Rightarrow> AList.update g (Merged [r]) acc0)
               | NotPlainObject v \<Rightarrow> AList.update g (Merged [r]) acc0)"
  have s: "(f, ActionResolver a def) \<in> set ?step \<Longrightarrow>
        (f, ActionResolver a def) \<in> set acc0 \<or>
        (\<exists>act. r = PlainObject def \<and> action def = Some act \<and> a = getResolverActionName n act)"
    by (auto split: resolver_decl.splits option.splits dest!: update_mem)
  from Cons.prems e Cons.IH [of ?step] s show ?case by auto
qed


lemma createServiceResolvers_binds:
  "(f, ActionResolver a def) \<in> set (createServiceResolvers n decls) \<Longrightarrow>
   \<exists>f' act. (f', PlainObject def) \<in> set decls \<and> action def = Some act \<and>
            a = getResolverActionName n act"
  unfolding createServiceResolvers_def
  by (drule createServiceResolvers_action) simp

lemma add_service_resolvers_binds:
  "binds (add_service_resolvers n declared acc) a def \<Longrightarrow>
   binds acc a def \<or>
   (\<exists>tn decls f act. (tn, decls) \<in> set declared \<and> (f, PlainObject def) \<in> set decls \<and>
       action def = Some act \<and> a = getResolverActionName n act)"
  unfolding add_service_resolvers_def
proof (induction declared arbitrary: acc)
  case Nil
  then show ?case by simp
next
  case (Cons e declared)
  obtain tn decls where e: "e = (tn, decls)" by (cases e)
  let ?acc = "merge_type acc tn (createServiceResolvers n decls)"
  from Cons.prems e have "binds (foldl (\<lambda>acc (type_name, resolver).
      merge_type acc type_name (createServiceResolvers n resolver)) ?acc declared) a def" by simp
  from Cons.IH [OF this] show ?case
  proof
    assume "binds ?acc a def"
    from merge_type_binds [OF this] show ?thesis
    proof
      assume "binds acc a def"
      then show ?thesis by simp
    next
      assume "\<exists>f. (f, ActionResolver a def) \<in> set (createServiceResolvers n decls)"
      then obtain f where "(f, ActionResolver a def) \<in> set (createServiceResolvers n decls)" ..
      from createServiceResolvers_binds [OF this] e show ?thesis by auto
    qed
  next
    assume "\<exists>tn decls f act. (tn, decls) \<in> set declared \<and> (f, PlainObject def) \<in> set decls \<and>
       action def = Some act \<and> a = getResolverActionName n act"
    then show ?thesis by auto
  qed
qed

lemma declared_resolvers_mem:
  assumes "settings_graphql s = Some g" and "gql_resolvers g = Some declared"
    and "(tn, decls) \<in> set declared" and "(f, r) \<in> set decls"
  shows "r \<in> set (declared_resolvers s)"
  using assms unfolding declared_resolvers_def by force

lemma compile_service_level_binds:
  assumes "binds (resolvers (compile_service_level (getServiceName s) g c)) a def"
    and "settings_graphql s = Some g"
  shows "binds (resolvers c) a def \<or> declared_by s a def"
proof (cases "gql_resolvers g")
  case None
  with assms(1) show ?thesis by (simp add: compile_service_level_def)
next
  case (Some declared)
  with assms(1) have "binds (add_service_resolvers (getServiceName s) declared (resolvers c)) a def"
    by (simp add: compile_service_level_def)
  from add_service_resolvers_binds [OF this] show ?thesis
  proof
    assume "binds (resolvers c) a def"
    then show ?thesis ..
  next
    assume "\<exists>tn decls f act. (tn, decls) \<in> set declared \<and> (f, PlainObject def) \<in> set decls \<and>
       action def = Some act \<and> a = getResolverActionName (getServiceName s) act"
    then obtain tn decls f act where m: "(tn, decls) \<in> set declared" "(f, PlainObject def) \<in> set decls"
      and a: "action def = Some act" "a = getResolverActionName (getServiceName s) act"
      by blast
    from declared_resolvers_mem [OF assms(2) Some m] a show ?thesis
      unfolding declared_by_def by blast
  qed
qed

lemma bare_empty: "bare []"
  by (simp add: bare_def binds_def)

lemma bare_ensure_type: "bare m \<Longrightarrow> bare (ensure_type t m)"
proof (cases "map_of m t")
  case None
  assume b: "bare m"
  have "binds (AList.update t [] m) a def \<Longrightarrow> binds m a def" for a def
    unfolding binds_def by (auto dest!: update_mem)
  with b None show ?thesis unfolding bare_def ensure_type_def by auto
next
  case (Some existing)
  assume "bare m"
  with Some show ?thesis by (simp add: ensure_type_def)
qed

lemma bare_set_field: "bare m \<Longrightarrow> bare (set_field t f (ActionResolver n empty_def) m)"
proof -
  assume b: "bare m"
  let ?old = "case map_of m t of None \<Rightarrow> [] | Some existing \<Rightarrow> existing"
  have o: "(f', ActionResolver a def) \<in> set ?old \<Longrightarrow> def = empty_def" for f' a def
  proof -
    assume x: "(f', ActionResolver a def) \<in> set ?old"
    then obtain existing where "map_of m t = Some existing" and "(f', ActionResolver a def) \<in> set existing"
      by (cases "map_of m t") auto
    then have "binds m a def" unfolding binds_def by (auto dest: map_of_SomeD)
    with b show ?thesis by (simp add: bare_def)
  qed
  show ?thesis
    unfolding bare_def
  proof (intro allI impI)
    fix a def
    assume "binds (set_field t f (ActionResolver n empty_def) m) a def"
    then obtain tn fm f' where m: "(tn, fm) \<in> set (set_field t f (ActionResolver n empty_def) m)"
      and r: "(f', ActionResolver a def) \<in> set fm"
      unfolding binds_def by blast
    from m have "(tn = t \<and> fm = AList.update f (ActionResolver n empty_def) ?old) \<or> (tn, fm) \<in> set m"
      unfolding set_field_def by (rule update_mem)
    then show "def = empty_def"
    proof
      assume "tn = t \<and> fm = AList.update f (ActionResolver n empty_def) ?old"
      with r have "(f', ActionResolver a def) \<in> set (AList.update f (ActionResolver n empty_def) ?old)"
        by simp
      from update_mem [OF this] o show ?thesis by auto
    next
      assume "(tn, fm) \<in> set m"
      with r have "binds m a def" unfolding binds_def by blast
      with b show ?thesis by (simp add: bare_def)
    qed
  qed
qed

lemma add_queries_bare:
  "bare (snd st) \<Longrightarrow> bare (snd (add_queries n ds st)) \<and> resolvers (fst (add_queries n ds st)) = resolvers (fst st)"
  unfolding add_queries_def
proof (induction ds arbitrary: st)
  case Nil
  then show ?case by simp
next
  case (Cons d ds)
  obtain c r where st: "st = (c, r)" by (cases st)
  let ?st = "(c\<lparr>queries := queries c @ [d]\<rparr>,
               set_field ''Query'' (getFieldName d) (ActionResolver n empty_def) r)"
  have "bare (snd ?st)" using Cons.prems st by (simp add: bare_set_field)
  from Cons.IH [OF this] st show ?case by simp
qed

lemma add_mutations_bare:
  "bare (snd st) \<Longrightarrow> bare (snd (add_mutations n ds st)) \<and> resolvers (fst (add_mutations n ds st)) = resolvers (fst st)"
  unfolding add_mutations_def
proof (induction ds arbitrary: st)
  case Nil
  then show ?case by simp
next
  case (Cons d ds)
  obtain c r where st: "st = (c, r)" by (cases st)
  let ?st = "(c\<lparr>mutations := mutations c @ [d]\<rparr>,
               set_field ''Mutation'' (getFieldName d) (ActionResolver n empty_def) r)"
  have "bare (snd ?st)" using Cons.prems st by (simp add: bare_set_field)
  from Cons.IH [OF this] st show ?case by simp
qed


lemma action_queries_bare:
  "bare (snd st) \<Longrightarrow>
   bare (snd (action_queries a d st)) \<and> resolvers (fst (action_queries a d st)) = resolvers (fst st)"
  using add_queries_bare [of "(fst st, ensure_type ''Query'' (snd st))" "action_name a" "castArray (gql_query d)"]
  by (simp add: action_queries_def bare_ensure_type)

lemma action_mutations_bare:
  "bare (snd st) \<Longrightarrow>
   bare (snd (action_mutations a d st)) \<and> resolvers (fst (action_mutations a d st)) = resolvers (fst st)"
  using add_mutations_bare [of "(fst st, ensure_type ''Mutation'' (snd st))" "action_name a" "castArray (gql_mutation d)"]
  by (simp add: action_mutations_def bare_ensure_type)

lemma action_subscriptions_bare:
  assumes "action_subscriptions a d st = Inr st'" and "bare (snd st)"
  shows "bare (snd st') \<and> resolvers (fst st') = resolvers (fst st)"
proof (cases "fragment_truthy (gql_subscription d)")
  case True
  with assms(1) have "add_subscriptions (action_name a) (gql_tags d) (gql_filter d)
      (castArray (gql_subscription d)) (fst st, ensure_type ''Subscription'' (snd st)) = Inr st'"
    by (simp add: action_subscriptions_def)
  from add_subscriptions_returns [OF this] assms(2) show ?thesis
    by (simp add: bare_ensure_type)
next
  case False
  with assms show ?thesis by (simp add: action_subscriptions_def)
qed

lemma compile_action_bare:
  assumes "compile_action a st = Inr st'" and "bare (snd st)"
  shows "bare (snd st') \<and> resolvers (fst st') = resolvers (fst st)"
proof (cases "action_graphql a")
  case None
  with assms show ?thesis by (simp add: compile_action_def)
next
  case (Some d)
  let ?st1 = "action_queries a d st"
  let ?st2 = "action_mutations a d ?st1"
  from Some assms(1) obtain st3 where
    3: "action_subscriptions a d ?st2 = Inr st3" and st': "st' = action_types d st3"
    by (auto simp: compile_action_def split: sum.splits)
  from action_queries_bare [OF assms(2), of a d]
  have 1: "bare (snd ?st1)" "resolvers (fst ?st1) = resolvers (fst st)" by simp_all
  from action_mutations_bare [OF 1(1), of a d]
  have 2: "bare (snd ?st2)" "resolvers (fst ?st2) = resolvers (fst ?st1)" by simp_all
  from action_subscriptions_bare [OF 3 2(1)] 1(2) 2(2) st' show ?thesis
    by (simp add: action_types_def)
qed

lemma compile_actions_bare:
  "compile_actions as st = Inr st' \<Longrightarrow> bare (snd st) \<Longrightarrow>
   bare (snd st') \<and> resolvers (fst st') = resolvers (fst st)"
proof (induction as arbitrary: st)
  case Nil
  then show ?case by simp
next
  case (Cons a as)
  from Cons.prems(1) obtain st1 where 1: "compile_action a st = Inr st1"
    and 2: "compile_actions as st1 = Inr st'"
    by (auto split: sum.splits)
  from compile_action_bare [OF 1 Cons.prems(2)]
  have b: "bare (snd st1)" and r: "resolvers (fst st1) = resolvers (fst st)" by simp_all
  from Cons.IH [OF 2 b] r show ?case by simp
qed

lemma merge_types_binds:
  "binds (foldl (\<lambda>acc (type_name, field_map). merge_type acc type_name field_map) acc r) a def \<Longrightarrow>
   binds acc a def \<or> binds r a def"
proof (induction r arbitrary: acc)
  case Nil
  then show ?case by simp
next
  case (Cons e r)
  obtain t fm where e: "e = (t, fm)" by (cases e)
  from Cons.prems e have "binds (foldl (\<lambda>acc (type_name, field_map). merge_type acc type_name field_map)
      (merge_type acc t fm) r) a def" by simp
  from Cons.IH [OF this] show ?case
  proof
    assume "binds (merge_type acc t fm) a def"
    from merge_type_binds [OF this] show ?thesis
    proof
      assume "binds acc a def"
      then show ?thesis ..
    next
      assume "\<exists>f. (f, ActionResolver a def) \<in> set fm"
      then obtain f where "(f, ActionResolver a def) \<in> set fm" ..
      moreover have "(t, fm) \<in> set ((t, fm) # r)" by simp
      ultimately have "binds ((t, fm) # r) a def" unfolding binds_def by blast
      with e show ?thesis by simp
    qed
  next
    assume "binds r a def"
    then have "binds (e # r) a def" unfolding binds_def by (meson list.set_intros(2))
    then show ?thesis ..
  qed
qed

lemma compile_service_binds:
  assumes "compile_service s c = Inr c'" and "binds (resolvers c') a def"
  shows "binds (resolvers c) a def \<or> def = empty_def \<or> declared_by s a def"
proof -
  let ?c1 = "case settings_graphql s of None \<Rightarrow> c
             | Some globalDef \<Rightarrow> compile_service_level (getServiceName s) globalDef c"
  from assms(1) obtain c2 r where 2: "compile_actions (actions s) (?c1, []) = Inr (c2, r)"
    and c': "c' = (if r \<noteq> []
                   then c2\<lparr>resolvers := foldl (\<lambda>acc (type_name, field_map). merge_type acc type_name field_map)
                                           (resolvers c2) r\<rparr>
                   else c2)"
    by (auto simp: compile_service_def Let_def split: sum.splits)
  from compile_actions_bare [OF 2] have b: "bare r" and r2: "resolvers c2 = resolvers ?c1"
    by (simp_all add: bare_empty)
  have 1: "binds (resolvers ?c1) a def \<Longrightarrow> binds (resolvers c) a def \<or> declared_by s a def"
  proof (cases "settings_graphql s")
    case None
    then show "binds (resolvers ?c1) a def \<Longrightarrow> ?thesis" by simp
  next
    case (Some g)
    assume "binds (resolvers ?c1) a def"
    with Some have "binds (resolvers (compile_service_level (getServiceName s) g c)) a def" by simp
    from compile_service_level_binds [OF this Some] show ?thesis .
  qed
  have "binds (resolvers c2) a def \<or> binds r a def"
  proof (cases "r = []")
    case True
    with c' assms(2) show ?thesis by simp
  next
    case False
    with c' assms(2) have "binds (foldl (\<lambda>acc (type_name, field_map). merge_type acc type_name field_map)
                                           (resolvers c2) r) a def" by simp
    then show ?thesis by (rule merge_types_binds)
  qed
  then show ?thesis
  proof
    assume "binds (resolvers c2) a def"
    with r2 1 show ?thesis by auto
  next
    assume "binds r a def"
    with b show ?thesis by (simp add: bare_def)
  qed
qed

lemma visit_services_binds:
  "visit_services ss c = Inr c' \<Longrightarrow> binds (resolvers c') a def \<Longrightarrow>
   binds (resolvers c) a def \<or> def = empty_def \<or> (\<exists>s \<in> set ss. declared_by s a def)"
proof (induction ss arbitrary: c)
  case Nil
  then show ?case by simp
next
  case (Cons s ss)
  from Cons.prems(1) obtain c1 where 1: "visit_service s c = Inr c1"
    and 2: "visit_services ss c1 = Inr c'"
    by (auto split: sum.splits)
  have step: "binds (resolvers c1) a def \<Longrightarrow>
      binds (resolvers c) a def \<or> def = empty_def \<or> declared_by s a def"
  proof (cases "getServiceName s \<in> processedServices c")
    case True
    with 1 show "binds (resolvers c1) a def \<Longrightarrow> ?thesis" by (simp add: visit_service_def)
  next
    case False
    assume b: "binds (resolvers c1) a def"
    from False 1 have "compile_service s
        (c\<lparr>processedServices := insert (getServiceName s) (processedServices c)\<rparr>) = Inr c1"
      by (simp add: visit_service_def)
    from compile_service_binds [OF this b] show ?thesis by simp
  qed
  from Cons.IH [OF 2 Cons.prems(2)] step show ?case by auto
qed

lemma declared_by_unit:
  assumes "declared_by s a def" and "declares_unit (PlainObject def)" and "s \<in> set services"
  shows "a \<in> set (declared_units services)"
proof -
  from assms(1) obtain act where m: "PlainObject def \<in> set (declared_resolvers s)"
    and a: "action def = Some act" "a = getResolverActionName (getServiceName s) act"
    unfolding declared_by_def by blast
  from a have "unit_name (getServiceName s) (PlainObject def) = a" by (simp add: unit_name_def)
  with m assms(2) have "a \<in> set (map (unit_name (getServiceName s))
      (filter declares_unit (declared_resolvers s)))"
    by force
  with assms(3) show ?thesis unfolding declared_units_def by auto
qed

lemma one_unit:
  "distinct (map fst registry) \<Longrightarrow> a \<in> fst ` set registry \<Longrightarrow>
   length (filter (\<lambda>e. fst e = a) registry) = 1"
proof (induction registry)
  case Nil
  then show ?case by simp
next
  case (Cons e registry)
  show ?case
  proof (cases "fst e = a")
    case True
    with Cons.prems(1) have "a \<notin> fst ` set registry" by simp
    then have "filter (\<lambda>e. fst e = a) registry = []"
      by (auto simp: filter_empty_conv image_iff)
    with True show ?thesis by simp
  next
    case False
    with Cons show ?thesis by auto
  qed
qed

lemma composed_units:
  assumes "compose mixinOptions services = Inr source" and "unwired (opt_resolvers mixinOptions)"
  shows "set (unit_targets (schema_resolvers source)) \<subseteq> set (declared_units services)"
proof
  fix a assume "a \<in> set (unit_targets (schema_resolvers source))"
  then obtain def where b: "binds (schema_resolvers source) a def" and u: "declares_unit (PlainObject def)"
    unfolding unit_targets_iff by blast
  from assms(1) obtain c where v: "visit_services services (initial_composition mixinOptions) = Inr c"
    and s: "schema_resolvers source = resolvers c"
    by (auto simp: compose_def schema_source_of_def split: sum.splits)
  from u have ne: "def \<noteq> empty_def" by (auto simp: declares_unit_def empty_def_def)
  have "\<not> binds (resolvers (initial_composition mixinOptions)) a def"
  proof
    assume i: "binds (resolvers (initial_composition mixinOptions)) a def"
    show False
    proof (cases "opt_resolvers mixinOptions")
      case None
      with i show False by (simp add: initial_composition_def binds_def)
    next
      case (Some given)
      with i have "binds given a def" by (simp add: initial_composition_def)
      with u have "a \<in> set (unit_targets given)" unfolding unit_targets_iff by blast
      with assms(2) Some show False by (simp add: unwired_def)
    qed
  qed
  with visit_services_binds [OF v, of a def] b s ne
  obtain t where "t \<in> set services" and "declared_by t a def" by auto
  from declared_by_unit [OF this(2) u this(1)] show "a \<in> set (declared_units services)" .
qed

text \<open>
  Claim C9 as stated fails, in both halves. Two instances of the service \<^verbatim>\<open>authors\<close>
  are listed, as during a rolling update: the first declares \<^verbatim>\<open>Post.author\<close> with the
  loader flag and no root mapping, the second declares it with the root mapping
  \<^verbatim>\<open>author\<close> to \<^verbatim>\<open>id\<close>. The composition pass skips the second, so the only
  resolver of the composed map that targets \<^verbatim>\<open>authors.resolve\<close> has no root key;
  \<^verbatim>\<open>createLoaders\<close> visits both and builds a unit for \<^verbatim>\<open>authors.resolve\<close>. And a
  service that declares \<^verbatim>\<open>Post.author\<close> with the loader flag and the root mapping
  \<^verbatim>\<open>author\<close> to the empty parameter name gives the composed map a resolver with a
  root key, for which \<^verbatim>\<open>createLoaders\<close> builds no unit: it tests the first parameter
  name, not the root key.
\<close>

theorem loader_registry_counterexample:
  "map_sum id schema_resolvers (compose sample_options [sample_authors_old, sample_authors_new]) =
     Inr [(''Post'', [(''author'', ActionResolver ''authors.resolve''
                                    (sample_batched_no_root\<lparr>action := Some ''resolve''\<rparr>))])]
   \<and> createLoaders [sample_authors_old, sample_authors_new] =
     Inr [(''authors.resolve'', DataLoader ''authors.resolve'' ''id'' [] [])]
   \<and> \<not> registry_as_specified
         [(''Post'', [(''author'', ActionResolver ''authors.resolve''
                                    (sample_batched_no_root\<lparr>action := Some ''resolve''\<rparr>))])]
         [(''authors.resolve'', DataLoader ''authors.resolve'' ''id'' [] [])]
   \<and> map_sum id schema_resolvers (compose sample_options [sample_authors_unnamed]) =
     Inr [(''Post'', [(''author'', ActionResolver ''authors.resolve''
                                    (sample_batched_no_root\<lparr>action := Some ''resolve'',
                                                           rootParams := [(''author'', [])]\<rparr>))])]
   \<and> createLoaders [sample_authors_unnamed] = Inr []
   \<and> \<not> registry_as_specified
         [(''Post'', [(''author'', ActionResolver ''authors.resolve''
                                    (sample_batched_no_root\<lparr>action := Some ''resolve'',
                                                           rootParams := [(''author'', [])]\<rparr>))])]
         []"
proof -
  have a: "map_sum id schema_resolvers (compose sample_options [sample_authors_old, sample_authors_new]) =
     Inr [(''Post'', [(''author'', ActionResolver ''authors.resolve''
                                    (sample_batched_no_root\<lparr>action := Some ''resolve''\<rparr>))])]"
    by (simp add: compose_def visit_service_def getServiceName_def compile_service_def
        compile_service_level_def add_service_resolvers_def createServiceResolvers_def
        merge_type_def merge_fields_def merge_value_def getResolverActionName_def
        schema_source_of_def initial_composition_def sample_options_def sample_authors_old_def
        sample_authors_new_def no_graphql_def sample_batched_no_root_def concat_fragment_def Let_def)
  have b: "createLoaders [sample_authors_old, sample_authors_new] =
     Inr [(''authors.resolve'', DataLoader ''authors.resolve'' ''id'' [] [])]"
    by (simp add: createLoaders_def service_loaders_def getServiceName_def field_loader_def
        spread_def getResolverActionName_def sample_authors_old_def sample_authors_new_def
        no_graphql_def sample_batched_no_root_def Let_def)
  have c: "\<not> registry_as_specified
         [(''Post'', [(''author'', ActionResolver ''authors.resolve''
                                    (sample_batched_no_root\<lparr>action := Some ''resolve''\<rparr>))])]
         [(''authors.resolve'', DataLoader ''authors.resolve'' ''id'' [] [])]"
    by (simp add: registry_as_specified_def batched_targets_def sample_batched_no_root_def)
  have d: "map_sum id schema_resolvers (compose sample_options [sample_authors_unnamed]) =
     Inr [(''Post'', [(''author'', ActionResolver ''authors.resolve''
                                    (sample_batched_no_root\<lparr>action := Some ''resolve'',
                                                           rootParams := [(''author'', [])]\<rparr>))])]"
    by (simp add: compose_def visit_service_def getServiceName_def compile_service_def
        compile_service_level_def add_service_resolvers_def createServiceResolvers_def
        merge_type_def merge_fields_def merge_value_def getResolverActionName_def
        schema_source_of_def initial_composition_def sample_options_def sample_authors_unnamed_def
        no_graphql_def sample_batched_no_root_def concat_fragment_def Let_def)
  have e: "createLoaders [sample_authors_unnamed] = Inr []"
    by (simp add: createLoaders_def service_loaders_def getServiceName_def field_loader_def
        spread_def sample_authors_unnamed_def no_graphql_def sample_batched_no_root_def)
  have f: "\<not> registry_as_specified
         [(''Post'', [(''author'', ActionResolver ''authors.resolve''
                                    (sample_batched_no_root\<lparr>action := Some ''resolve'',
                                                           rootParams := [(''author'', [])]\<rparr>))])]
         []"
    by (simp add: registry_as_specified_def batched_targets_def sample_batched_no_root_def)
  from a b c d e f show ?thesis by blast
qed

text \<open>
  Claim C9, as amended. When \<^verbatim>\<open>createLoaders\<close> returns a registry for a service list,
  the registry has at most one unit per action name. It has exactly one unit for every
  action targeted by a resolver of the resolver map composed from the same list that was
  created with the loader flag and a non-empty first root parameter (the resolvers given
  in the mixin options holding no such resolver). It has a unit for a name exactly when
  some service of the list (an instance that the composition pass skipped or overrode
  counts as well) declares among its service-level resolvers a plain object with the
  loader flag and a non-empty first root parameter whose action resolves to that name; so
  an action targeted in the composed map only by resolvers without a root key has a unit
  when, and only when, such a declaration of a listed service names it. A resolver with
  the loader flag whose root mapping is empty, or whose first parameter name is empty,
  contributes no unit.
\<close>

theorem loader_registry_keys:
  assumes "createLoaders services = Inr registry"
  shows "distinct (map fst registry) \<and> set (map fst registry) = set (declared_units services)
       \<and> (\<forall>source.
            compose mixinOptions services = Inr source \<and> unwired (opt_resolvers mixinOptions) \<longrightarrow>
            list_all (\<lambda>a. length (filter (\<lambda>e. fst e = a) registry) = 1)
              (unit_targets (schema_resolvers source)))"
proof -
  from loaders_from_keys [of services "[]" registry] assms
  have d: "distinct (map fst registry)" and k: "set (map fst registry) = set (declared_units services)"
    by (simp_all add: createLoaders_def)
  have "list_all (\<lambda>a. length (filter (\<lambda>e. fst e = a) registry) = 1)
          (unit_targets (schema_resolvers source))"
    if "compose mixinOptions services = Inr source" and "unwired (opt_resolvers mixinOptions)"
    for source
  proof -
    have "length (filter (\<lambda>e. fst e = a) registry) = 1"
      if "a \<in> set (unit_targets (schema_resolvers source))" for a
    proof -
      from composed_units [OF \<open>compose mixinOptions services = Inr source\<close>
          \<open>unwired (opt_resolvers mixinOptions)\<close>] that k
      have "a \<in> fst ` set registry" by auto
      with d show ?thesis by (rule one_unit)
    qed
    then show ?thesis by (simp add: list_all_iff)
  qed
  with d k show ?thesis by blast
qed

theorem loader_registry_keys_witness:
  "createLoaders [sample_authors_new, sample_authors_old, sample_posts] =
     Inr [(''authors.resolve'', DataLoader ''authors.resolve'' ''id'' [] [])]
   \<and> declared_units [sample_authors_new, sample_authors_old, sample_posts] = [''authors.resolve'']
   \<and> map_sum id (\<lambda>source. unit_targets (schema_resolvers source))
        (compose sample_options [sample_authors_new, sample_authors_old, sample_posts]) =
      Inr [''authors.resolve'']
   \<and> unwired (opt_resolvers sample_options)
   \<and> set (map fst [(''authors.resolve'', DataLoader ''authors.resolve'' ''id'' [] [])]) =
       set (declared_units [sample_authors_new, sample_authors_old, sample_posts])
   \<and> list_all (\<lambda>a. length (filter (\<lambda>e. fst e = a)
                  [(''authors.resolve'', DataLoader ''authors.resolve'' ''id'' [] [])]) = 1)
        [''authors.resolve'']"
proof -
  let ?services = "[sample_authors_new, sample_authors_old, sample_posts]"
  have b: "createLoaders ?services =
     Inr [(''authors.resolve'', DataLoader ''authors.resolve'' ''id'' [] [])]"
    by (simp add: createLoaders_def service_loaders_def getServiceName_def field_loader_def
        spread_def getResolverActionName_def sample_authors_old_def sample_authors_new_def
        sample_posts_def no_graphql_def sample_batched_no_root_def Let_def)
  have d: "declared_units ?services = [''authors.resolve'']"
    by (simp add: declared_units_def declared_resolvers_def declares_unit_def unit_name_def
        getServiceName_def getResolverActionName_def sample_authors_old_def sample_authors_new_def
        sample_posts_def no_graphql_def sample_batched_no_root_def)
  obtain source where c: "compose sample_options ?services = Inr source"
    and r: "schema_resolvers source =
      [(''Post'', [(''author'', ActionResolver ''authors.resolve''
                     (sample_batched_no_root\<lparr>action := Some ''resolve'',
                                            rootParams := [(''author'', ''id'')]\<rparr>))])]"
    by (simp add: compose_def visit_service_def getServiceName_def compile_service_def
        compile_service_level_def add_service_resolvers_def createServiceResolvers_def
        merge_type_def merge_fields_def merge_value_def getResolverActionName_def
        schema_source_of_def initial_composition_def sample_options_def sample_authors_old_def
        sample_authors_new_def sample_posts_def no_graphql_def sample_batched_no_root_def
        concat_fragment_def Let_def)
  have t: "unit_targets (schema_resolvers source) = [''authors.resolve'']"
    unfolding r by (simp add: unit_targets_def declares_unit_def sample_batched_no_root_def)
  have u: "unwired (opt_resolvers sample_options)"
    by (simp add: unwired_def sample_options_def)
  from loader_registry_keys [OF b, of sample_options] c u t d b show ?thesis by simp
qed

section \<open>Properties of the schema lifecycle\<close>

lemma snapshot_frame [simp]:
  "snapshot env (life\<lparr>recreate_logged := a\<rparr>) = snapshot env life"
  "snapshot env (life\<lparr>stopped := b\<rparr>) = snapshot env life"
  "snapshot env (life\<lparr>rebuilds := c\<rparr>) = snapshot env life"
  "snapshot env (life\<lparr>pubsub := d\<rparr>) = snapshot env life"
  by (simp_all add: snapshot_def)

lemma rebuild_fails:
  assumes "generateGraphQLSchema (options env) (schema_builder env) (snapshot env life) = Inl err"
  shows "rebuild env life = (Inl err, life\<lparr>rebuilds := Suc (rebuilds life), pubsub := Some (Suc (rebuilds life))\<rparr>)"
  using assms by (simp add: rebuild_def Let_def)

lemma prepare_fails:
  assumes "stale life" and "stop_error env = None"
    and "generateGraphQLSchema (options env) (schema_builder env) (snapshot env life) = Inl err"
  shows "prepareGraphQLSchema env life =
     (Inl err, life\<lparr>recreate_logged := Suc (recreate_logged life),
                     stopped := stopped life @ (case apolloServer life of None \<Rightarrow> [] | Some server \<Rightarrow> [server]),
                     rebuilds := Suc (rebuilds life), pubsub := Some (Suc (rebuilds life))\<rparr>)"
proof (cases "apolloServer life")
  case None
  let ?life1 = "life\<lparr>recreate_logged := Suc (recreate_logged life)\<rparr>"
  have "generateGraphQLSchema (options env) (schema_builder env) (snapshot env ?life1) = Inl err"
    using assms(3) by simp
  from rebuild_fails [OF this] None assms(1) show ?thesis
    by (simp add: prepareGraphQLSchema_def Let_def)
next
  case (Some server)
  let ?life1 = "life\<lparr>recreate_logged := Suc (recreate_logged life), stopped := stopped life @ [server]\<rparr>"
  have "generateGraphQLSchema (options env) (schema_builder env) (snapshot env ?life1) = Inl err"
    using assms(3) by simp
  from rebuild_fails [OF this] Some assms(1,2) show ?thesis
    by (simp add: prepareGraphQLSchema_def Let_def)
qed

lemma generate_wraps:
  "(case compose mixinOptions services of Inl err \<Rightarrow> Inl err | Inr source \<Rightarrow> makeExecutableSchema source) = Inl cause
   \<Longrightarrow> generateGraphQLSchema mixinOptions makeExecutableSchema services =
       Inl (MoleculerServerError ''Unable to compile GraphQL schema'' 500
              ''UNABLE_COMPILE_GRAPHQL_SCHEMA'' (JObj [(''err'', cause)]))"
  by (simp add: generateGraphQLSchema_def)

text \<open>
  Claim C8. A demand finds the schema out of date, \<^verbatim>\<open>stop()\<close> is not rejected, and
  the composition of the current service list fails with some cause, thrown in the pass
  or by the schema builder. Then \<^verbatim>\<open>generateGraphQLSchema\<close> throws the
  schema-composition error that carries the cause, the demand throws that same error,
  the flag is what it was and the state is still stale, the schema installed before is
  still the one held, the demand has made one rebuild attempt, and a next demand makes
  another.
\<close>

theorem failed_composition_keeps_stale:
  assumes "stale life" and "stop_error env = None"
    and "(case compose (options env) (snapshot env life) of
            Inl err \<Rightarrow> Inl err
          | Inr source \<Rightarrow> schema_builder env source) = Inl cause"
  shows "generateGraphQLSchema (options env) (schema_builder env) (snapshot env life) =
           Inl (MoleculerServerError ''Unable to compile GraphQL schema'' 500
                  ''UNABLE_COMPILE_GRAPHQL_SCHEMA'' (JObj [(''err'', cause)]))
       \<and> fst (prepareGraphQLSchema env life) =
           Inl (MoleculerServerError ''Unable to compile GraphQL schema'' 500
                  ''UNABLE_COMPILE_GRAPHQL_SCHEMA'' (JObj [(''err'', cause)]))
       \<and> stale (snd (prepareGraphQLSchema env life))
       \<and> shouldUpdateGraphqlSchema (snd (prepareGraphQLSchema env life)) = shouldUpdateGraphqlSchema life
       \<and> graphqlSchema (snd (prepareGraphQLSchema env life)) = graphqlSchema life
       \<and> rebuilds (snd (prepareGraphQLSchema env life)) = Suc (rebuilds life)
       \<and> rebuilds (snd (prepareGraphQLSchema env (snd (prepareGraphQLSchema env life)))) =
           Suc (Suc (rebuilds life))"
proof -
  let ?err = "MoleculerServerError ''Unable to compile GraphQL schema'' 500
                  ''UNABLE_COMPILE_GRAPHQL_SCHEMA'' (JObj [(''err'', cause)])"
  let ?life' = "life\<lparr>recreate_logged := Suc (recreate_logged life),
                     stopped := stopped life @ (case apolloServer life of None \<Rightarrow> [] | Some server \<Rightarrow> [server]),
                     rebuilds := Suc (rebuilds life), pubsub := Some (Suc (rebuilds life))\<rparr>"
  have g: "generateGraphQLSchema (options env) (schema_builder env) (snapshot env life) = Inl ?err"
    using assms(3) by (rule generate_wraps)
  have p: "prepareGraphQLSchema env life = (Inl ?err, ?life')"
    using assms(1,2) g by (rule prepare_fails)
  have s': "stale ?life'" using assms(1) by (simp add: stale_def)
  have g': "generateGraphQLSchema (options env) (schema_builder env) (snapshot env ?life') = Inl ?err"
    using g by simp
  have p': "rebuilds (snd (prepareGraphQLSchema env ?life')) = Suc (Suc (rebuilds life))"
    unfolding prepare_fails [OF s' assms(2) g'] by simp
  show ?thesis using g p' s' unfolding p by simp
qed
theorem failed_composition_keeps_stale_witness:
  "stale (created [sample_votes] :: schema_source lifecycle)
   \<and> stop_error sample_environment = None
   \<and> (case compose (options sample_environment)
               (snapshot sample_environment (created [sample_votes])) of
         Inl err \<Rightarrow> Inl err
       | Inr source \<Rightarrow> schema_builder sample_environment source) = Inl (ReferenceError ''params'')
   \<and> fst (prepareGraphQLSchema sample_environment (created [sample_votes])) =
       Inl (MoleculerServerError ''Unable to compile GraphQL schema'' 500
              ''UNABLE_COMPILE_GRAPHQL_SCHEMA'' (JObj [(''err'', ReferenceError ''params'')]))
   \<and> stale (snd (prepareGraphQLSchema sample_environment (created [sample_votes])))
   \<and> rebuilds (snd (prepareGraphQLSchema sample_environment
                       (snd (prepareGraphQLSchema sample_environment (created [sample_votes]))))) = 2"
proof -
  let ?life = "created [sample_votes] :: schema_source lifecycle"
  have s: "stale ?life" by (simp add: stale_def created_def)
  have e: "stop_error sample_environment = None" by (simp add: sample_environment_def)
  have c: "(case compose (options sample_environment) (snapshot sample_environment ?life) of
         Inl err \<Rightarrow> Inl err
       | Inr source \<Rightarrow> schema_builder sample_environment source) = Inl (ReferenceError ''params'')"
    by (simp add: compose_def snapshot_def created_def sample_environment_def
        visit_service_def compile_service_def compile_action_def action_subscriptions_def
        action_mutations_def action_queries_def initial_composition_def sample_options_def
        sample_votes_def no_graphql_def getServiceName_def createAsyncIteratorResolver_def Let_def)
  have r: "rebuilds ?life = 0" by (simp add: created_def)
  from failed_composition_keeps_stale [OF s e c] s e c r show ?thesis by simp
qed

lemma rebuild_counts:
  "rebuilds (snd (rebuild env life)) = Suc (rebuilds life)"
  "recreate_logged (snd (rebuild env life)) = recreate_logged life"
  by (simp_all add: rebuild_def Let_def split: sum.splits)

lemma awaiting_update:
  "i < length ds \<Longrightarrow>
   awaiting (ds[i := d]) + (if ds ! i = AwaitingStop then 1 else 0) =
   awaiting ds + (if d = AwaitingStop then 1 else 0)"
proof (induction ds arbitrary: i)
  case Nil
  then show ?case by simp
next
  case (Cons x ds)
  show ?case
  proof (cases i)
    case 0
    then show ?thesis by (simp add: awaiting_def)
  next
    case (Suc j)
    with Cons.prems have "j < length ds" by simp
    from Cons.IH [OF this] Suc show ?thesis by (cases "x = AwaitingStop") (simp_all add: awaiting_def)
  qed
qed

lemma segment_counts:
  assumes "stop_error env = None" and "segment env d life = (d', life')"
  shows "rebuilds life' + (if d' = AwaitingStop then 1 else 0) + recreate_logged life =
         rebuilds life + (if d = AwaitingStop then 1 else 0) + recreate_logged life'"
proof (cases d)
  case Entry
  show ?thesis
  proof (cases "stale life")
    case False
    with assms Entry show ?thesis by auto
  next
    case True
    show ?thesis
    proof (cases "apolloServer life")
      case None
      let ?life1 = "life\<lparr>recreate_logged := Suc (recreate_logged life)\<rparr>"
      from assms Entry True None have "life' = snd (rebuild env ?life1)" and "d' = Returned (fst (rebuild env ?life1))"
        by (auto simp: Let_def split: prod.splits)
      then show ?thesis using Entry by (simp add: rebuild_counts)
    next
      case (Some server)
      with assms Entry True show ?thesis by (auto simp: Let_def)
    qed
  qed
next
  case AwaitingStop
  with assms have "life' = snd (rebuild env life)" and "d' = Returned (fst (rebuild env life))"
    by (auto split: prod.splits)
  then show ?thesis using AwaitingStop by (simp add: rebuild_counts)
next
  case (Returned outcome)
  with assms show ?thesis by auto
qed

lemma advance_counts:
  assumes "stop_error env = None"
  shows "balance (advance env i sys) + recreate_logged (fst sys) =
         balance sys + recreate_logged (fst (advance env i sys))"
proof -
  obtain life ds where sys: "sys = (life, ds)" by (cases sys)
  show ?thesis
  proof (cases "i < length ds")
    case False
    with sys show ?thesis by (simp add: advance_def)
  next
    case True
    obtain d' life' where seg: "segment env (ds ! i) life = (d', life')"
      by (cases "segment env (ds ! i) life")
    from True seg have adv: "advance env i (life, ds) = (life', ds[i := d'])"
      by (simp add: advance_def)
    from segment_counts [OF assms seg] awaiting_update [OF True, of d']
    show ?thesis unfolding sys adv balance_def by (simp split: if_splits)
  qed
qed

lemma run_counts:
  assumes "stop_error env = None"
  shows "balance (run env schedule sys) + recreate_logged (fst sys) =
         balance sys + recreate_logged (fst (run env schedule sys))"
proof (induction schedule arbitrary: sys)
  case Nil
  then show ?case by (simp add: run_def)
next
  case (Cons i schedule)
  have "run env (i # schedule) sys = run env schedule (advance env i sys)"
    by (simp add: run_def)
  with Cons.IH [of "advance env i sys"] advance_counts [OF assms, of i sys]
  show ?case by simp
qed


lemma segment_started:
  assumes "d \<noteq> Entry" and "segment env d life = (d', life')"
  shows "d' \<noteq> Entry \<and> recreate_logged life' = recreate_logged life"
proof (cases d)
  case Entry
  with assms show ?thesis by simp
next
  case AwaitingStop
  with assms have "life' = life \<or> life' = snd (rebuild env life)" "\<exists>outcome. d' = Returned outcome"
    by (auto split: option.splits prod.splits)
  then show ?thesis by (auto simp: rebuild_counts)
next
  case (Returned outcome)
  with assms show ?thesis by auto
qed

lemma advance_started:
  assumes "started (snd sys)"
  shows "started (snd (advance env i sys)) \<and>
         recreate_logged (fst (advance env i sys)) = recreate_logged (fst sys)"
proof -
  obtain life ds where sys: "sys = (life, ds)" by (cases sys)
  show ?thesis
  proof (cases "i < length ds")
    case False
    with sys assms show ?thesis by (simp add: advance_def)
  next
    case True
    obtain d' life' where seg: "segment env (ds ! i) life = (d', life')"
      by (cases "segment env (ds ! i) life")
    from True seg have adv: "advance env i (life, ds) = (life', ds[i := d'])"
      by (simp add: advance_def)
    from assms sys True have "ds ! i \<noteq> Entry"
      by (simp add: started_def list_all_length)
    from segment_started [OF this seg] assms sys
    show ?thesis unfolding sys adv
      by (auto simp: started_def list_all_iff dest: set_update_subset_insert [THEN subsetD])
  qed
qed

lemma run_started:
  "started (snd sys) \<Longrightarrow>
   started (snd (run env schedule sys)) \<and>
   recreate_logged (fst (run env schedule sys)) = recreate_logged (fst sys)"
proof (induction schedule arbitrary: sys)
  case Nil
  then show ?case by (simp add: run_def)
next
  case (Cons i schedule)
  have r: "run env (i # schedule) sys = run env schedule (advance env i sys)"
    by (simp add: run_def)
  from advance_started [OF Cons.prems, of env i] Cons.IH [of "advance env i sys"]
  show ?case unfolding r by simp
qed

lemma run_append: "run env (xs @ ys) sys = run env ys (run env xs sys)"
  by (simp add: run_def)

lemma enter_all:
  assumes "stale life" and "apolloServer life = Some server"
  shows "j \<le> K \<Longrightarrow> run env [0..<j] (life, replicate K Entry) =
     (life\<lparr>recreate_logged := recreate_logged life + j,
            stopped := stopped life @ replicate j server\<rparr>,
      replicate j AwaitingStop @ replicate (K - j) Entry)"
proof (induction j)
  case 0
  then show ?case by (simp add: run_def)
next
  case (Suc j)
  let ?life = "life\<lparr>recreate_logged := recreate_logged life + j,
            stopped := stopped life @ replicate j server\<rparr>"
  let ?ds = "replicate j AwaitingStop @ replicate (K - j) Entry"
  from Suc have ih: "run env [0..<j] (life, replicate K Entry) = (?life, ?ds)" by simp
  from Suc.prems have jK: "j < K" by simp
  then have at: "?ds ! j = Entry" by (simp add: nth_append)
  have st: "stale ?life" using assms(1) by (simp add: stale_def)
  have upd: "?ds[j := AwaitingStop] = replicate (Suc j) AwaitingStop @ replicate (K - Suc j) Entry"
  proof -
    from jK obtain m where m: "K - j = Suc m" by (cases "K - j") auto
    then have "K - Suc j = m" by simp
    with m show ?thesis by (simp add: list_update_append replicate_append_same)
  qed
  have "advance env j (?life, ?ds) =
      (?life\<lparr>recreate_logged := Suc (recreate_logged ?life), stopped := stopped ?life @ [server]\<rparr>,
       ?ds[j := AwaitingStop])"
    using jK at st assms(2) by (simp add: advance_def Let_def)
  then have "run env [0..<Suc j] (life, replicate K Entry) =
      (?life\<lparr>recreate_logged := Suc (recreate_logged ?life), stopped := stopped ?life @ [server]\<rparr>,
       ?ds[j := AwaitingStop])"
    using ih by (simp add: run_append) (simp add: run_def)
  then show ?case unfolding upd by (simp add: replicate_append_same)
qed


lemma rebuild_outcome:
  "fst (rebuild env life) = attempt_outcome env life"
  "snapshot env (snd (rebuild env life)) = snapshot env life"
  by (simp_all add: rebuild_def attempt_outcome_def snapshot_def Let_def split: sum.splits)

lemma awaiting_replicate: "awaiting (replicate K AwaitingStop) = K"
  by (simp add: awaiting_def)

lemma awaiting_returned: "all_returned ds \<Longrightarrow> awaiting ds = 0"
  by (induction ds) (auto simp: awaiting_def all_returned_def)

lemma segment_settled:
  assumes "stop_error env = None" and "snapshot env life = snapshot env life0"
    and "d = AwaitingStop \<or> d = Returned (attempt_outcome env life0)"
    and "segment env d life = (d', life')"
  shows "snapshot env life' = snapshot env life0 \<and> d' = Returned (attempt_outcome env life0)"
proof -
  have o: "attempt_outcome env life = attempt_outcome env life0"
    using assms(2) by (simp add: attempt_outcome_def)
  from assms(3) show ?thesis
  proof
    assume "d = AwaitingStop"
    with assms(1,4) have "life' = snd (rebuild env life)" "d' = Returned (fst (rebuild env life))"
      by (auto split: prod.splits)
    then show ?thesis using assms(2) o by (simp add: rebuild_outcome)
  next
    assume "d = Returned (attempt_outcome env life0)"
    with assms(2,4) show ?thesis by auto
  qed
qed

lemma advance_settled:
  assumes "stop_error env = None" and "settled env life0 sys"
  shows "settled env life0 (advance env i sys)"
proof -
  obtain life ds where sys: "sys = (life, ds)" by (cases sys)
  show ?thesis
  proof (cases "i < length ds")
    case False
    with sys assms(2) show ?thesis by (simp add: advance_def)
  next
    case True
    obtain d' life' where seg: "segment env (ds ! i) life = (d', life')"
      by (cases "segment env (ds ! i) life")
    from True seg have adv: "advance env i (life, ds) = (life', ds[i := d'])"
      by (simp add: advance_def)
    from assms(2) sys True have d: "ds ! i = AwaitingStop \<or> ds ! i = Returned (attempt_outcome env life0)"
      and sn: "snapshot env life = snapshot env life0"
      by (simp_all add: settled_def list_all_length)
    from segment_settled [OF assms(1) sn d seg] assms(2) sys
    show ?thesis unfolding sys adv
      by (auto simp: settled_def list_all_iff dest: set_update_subset_insert [THEN subsetD])
  qed
qed

lemma run_settled:
  assumes "stop_error env = None"
  shows "settled env life0 sys \<Longrightarrow> settled env life0 (run env schedule sys)"
proof (induction schedule arbitrary: sys)
  case Nil
  then show ?case by (simp add: run_def)
next
  case (Cons i schedule)
  have r: "run env (i # schedule) sys = run env schedule (advance env i sys)"
    by (simp add: run_def)
  from Cons.IH [OF advance_settled [OF assms Cons.prems]] show ?case unfolding r .
qed

lemma run_length: "length (snd (run env schedule sys)) = length (snd sys)"
proof (induction schedule arbitrary: sys)
  case Nil
  then show ?case by (simp add: run_def)
next
  case (Cons i schedule)
  have r: "run env (i # schedule) sys = run env schedule (advance env i sys)"
    by (simp add: run_def)
  have "length (snd (advance env i sys)) = length (snd sys)"
    by (cases sys) (simp add: advance_def split: prod.splits)
  with Cons.IH [of "advance env i sys"] show ?case unfolding r by simp
qed

lemma settled_returned:
  assumes "settled env life0 (life', ds')" and "all_returned ds'"
  shows "ds' = replicate (length ds') (Returned (attempt_outcome env life0))"
proof -
  have "\<forall>d \<in> set ds'. d = Returned (attempt_outcome env life0)"
  proof
    fix d assume d: "d \<in> set ds'"
    with assms(1) have "d = AwaitingStop \<or> d = Returned (attempt_outcome env life0)"
      by (simp add: settled_def list_all_iff)
    moreover from assms(2) d have "d \<noteq> AwaitingStop"
      by (auto simp: all_returned_def list_all_iff)
    ultimately show "d = Returned (attempt_outcome env life0)" by simp
  qed
  then show ?thesis by (simp add: replicate_length_same)
qed

text \<open>
  Claim C1 as stated fails. A schema has been built and the service list has changed,
  so the state is stale with a server installed. Two demands arrive before either goes
  on: each finds the schema out of date, calls \<^verbatim>\<open>stop()\<close> and is suspended at the
  \<^verbatim>\<open>await\<close> of line 484. Each then runs the rebuild of lines 487 to 543 when it is
  resumed: two rebuild attempts for the two demands (the third and the second of the
  service), not one.
\<close>

theorem single_flight_counterexample:
  "stale sample_stale \<and> apolloServer sample_stale = Some 1 \<and> rebuilds sample_stale = 1
   \<and> snd (run sample_environment [0, 1] (sample_stale, [Entry, Entry])) = [AwaitingStop, AwaitingStop]
   \<and> snd (run sample_environment [0, 1, 0, 1] (sample_stale, [Entry, Entry])) =
       [Returned (Inr ()), Returned (Inr ())]
   \<and> rebuilds (fst (run sample_environment [0, 1, 0, 1] (sample_stale, [Entry, Entry]))) = 3"
  by (simp add: sample_stale_def sample_ready_def services_changed_def prepareGraphQLSchema_def
      created_def stale_def rebuild_def snapshot_def run_def advance_def sample_environment_def
      generateGraphQLSchema_def compose_def visit_service_def compile_service_def
      compile_service_level_def initial_composition_def getServiceName_def string_of_int_def
      sample_options_def sample_posts_def sample_users_def no_graphql_def concat_fragment_def Let_def)

text \<open>
  Claim C1, as amended. There is no single-flight guard: every call of
  \<^verbatim>\<open>prepareGraphQLSchema\<close> that finds the schema out of date makes a rebuild attempt
  of its own. Under every schedule, as long as \<^verbatim>\<open>stop()\<close> is not rejected, the
  rebuild attempts made are as many as the calls that found the schema out of date, less
  those still waiting for \<^verbatim>\<open>stop()\<close>. When K demands arrive while the state is stale
  with a server installed, before any of them is resumed, then however they are resumed
  afterwards, once all have returned K rebuild attempts have been made, and every demand
  has returned or thrown what an attempt on that service list returns or throws: all K
  succeed, or all K fail with the same error.
\<close>

theorem every_stale_demand_rebuilds:
  assumes "stop_error env = None"
  shows "(run env schedule (life, replicate K Entry) = (life', ds') \<longrightarrow>
            rebuilds life' + awaiting ds' + recreate_logged life = rebuilds life + recreate_logged life')
       \<and> (stale life \<and> apolloServer life = Some server \<and>
          run env ([0..<K] @ rest) (life, replicate K Entry) = (life', ds') \<and> all_returned ds' \<longrightarrow>
            rebuilds life' = rebuilds life + K \<and>
            recreate_logged life' = recreate_logged life + K \<and>
            ds' = replicate K (Returned (attempt_outcome env life)))"
proof -
  have a: "rebuilds life' + awaiting ds' + recreate_logged life = rebuilds life + recreate_logged life'"
    if "run env schedule (life, replicate K Entry) = (life', ds')"
    using run_counts [OF assms, of schedule "(life, replicate K Entry)"] that
    by (simp add: balance_def awaiting_def)
  have b: "rebuilds life' = rebuilds life + K \<and>
           recreate_logged life' = recreate_logged life + K \<and>
           ds' = replicate K (Returned (attempt_outcome env life))"
    if st: "stale life" and sv: "apolloServer life = Some server"
      and r: "run env ([0..<K] @ rest) (life, replicate K Entry) = (life', ds')"
      and fin: "all_returned ds'"
  proof -
    let ?life1 = "life\<lparr>recreate_logged := recreate_logged life + K,
            stopped := stopped life @ replicate K server\<rparr>"
    let ?sys1 = "(?life1, replicate K AwaitingStop)"
    have e: "run env [0..<K] (life, replicate K Entry) = ?sys1"
      using enter_all [OF st sv, of K K env] by simp
    with r have r1: "run env rest ?sys1 = (life', ds')" by (simp add: run_append)
    have "started (snd ?sys1)" by (simp add: started_def list_all_iff)
    from run_started [OF this, of env rest] r1
    have log: "recreate_logged life' = recreate_logged life + K" by simp
    from run_counts [OF assms, of rest ?sys1] r1 log
    have "rebuilds life' + awaiting ds' = rebuilds life + K"
      by (simp add: balance_def awaiting_replicate)
    with awaiting_returned [OF fin] have reb: "rebuilds life' = rebuilds life + K" by simp
    have "settled env life ?sys1" by (simp add: settled_def snapshot_def list_all_iff)
    from run_settled [OF assms this, of rest] r1 have "settled env life (life', ds')" by simp
    from settled_returned [OF this fin] run_length [of env rest ?sys1] r1
    have "ds' = replicate K (Returned (attempt_outcome env life))" by simp
    with reb log show ?thesis by simp
  qed
  from a b show ?thesis by blast
qed

theorem every_stale_demand_rebuilds_witness:
  "stop_error sample_environment = None \<and> stale sample_stale \<and> apolloServer sample_stale = Some 1
   \<and> all_returned (snd (run sample_environment ([0..<2] @ [1, 0]) (sample_stale, replicate 2 Entry)))
   \<and> rebuilds (fst (run sample_environment ([0..<2] @ [1, 0]) (sample_stale, replicate 2 Entry))) =
       rebuilds sample_stale + 2
   \<and> snd (run sample_environment ([0..<2] @ [1, 0]) (sample_stale, replicate 2 Entry)) =
       replicate 2 (Returned (attempt_outcome sample_environment sample_stale))"
proof -
  let ?final = "run sample_environment ([0..<2] @ [1, 0]) (sample_stale, replicate 2 Entry)"
  have e: "stop_error sample_environment = None" by (simp add: sample_environment_def)
  have two: "[0..<2] = [0, Suc 0]" "replicate 2 Entry = [Entry, Entry]"
    by (simp_all add: numeral_2_eq_2)
  have s: "stale sample_stale" and v: "apolloServer sample_stale = Some 1"
    by (simp_all add: sample_stale_def sample_ready_def services_changed_def
        prepareGraphQLSchema_def created_def stale_def rebuild_def snapshot_def
        sample_environment_def generateGraphQLSchema_def compose_def visit_service_def
        compile_service_def compile_service_level_def initial_composition_def getServiceName_def
        sample_options_def sample_posts_def no_graphql_def concat_fragment_def Let_def)
  have r: "all_returned (snd ?final)"
    unfolding two
    by (simp add: all_returned_def sample_stale_def sample_ready_def services_changed_def
        prepareGraphQLSchema_def created_def stale_def rebuild_def snapshot_def run_def advance_def
        sample_environment_def generateGraphQLSchema_def compose_def visit_service_def
        compile_service_def compile_service_level_def initial_composition_def getServiceName_def
        string_of_int_def sample_options_def sample_posts_def sample_users_def no_graphql_def
        concat_fragment_def Let_def)
  have p: "?final = (fst ?final, snd ?final)" by simp
  from every_stale_demand_rebuilds [OF e, of "[]" sample_stale 2 "fst ?final" "snd ?final" 1 "[1, 0]"]
    s v r p
  have "rebuilds (fst ?final) = rebuilds sample_stale + 2 \<and>
        snd ?final = replicate 2 (Returned (attempt_outcome sample_environment sample_stale))"
    by blast
  with e s v r show ?thesis by blast
qed

end
